theory Spec2Isabelle
  imports Main "HOL-Library.Sublist"
begin

section \<open>Strings of the Go runtime\<close>

text \<open>
  A Go \<open>string\<close> is a sequence of bytes, and so is \<^typ>\<open>string\<close> (a list of 8-bit
  characters). \<open>len(s)\<close> is \<^term>\<open>length s\<close>, \<open>s[n:]\<close> is \<^term>\<open>drop n s\<close> (for
  \<open>n \<le> len(s)\<close>) and \<open>s == ""\<close> is \<^term>\<open>s = []\<close>.
\<close>

text \<open>\<open>strings.HasPrefix(s, prefix)\<close>: \<open>len(s) >= len(prefix) && s[:len(prefix)] == prefix\<close>.\<close>

definition HasPrefix :: "string \<Rightarrow> string \<Rightarrow> bool" where
  "HasPrefix s pre = (length pre \<le> length s \<and> take (length pre) s = pre)"

text \<open>\<open>strings.Contains(s, substr)\<close>: some position of \<open>s\<close> starts an occurrence of \<open>substr\<close>.\<close>

fun Contains :: "string \<Rightarrow> string \<Rightarrow> bool" where
  "Contains [] substr = (substr = [])"
| "Contains (c # cs) substr = (HasPrefix (c # cs) substr \<or> Contains cs substr)"

subsection \<open>\<open>strings.TrimSpace\<close>\<close>

text \<open>
  \<open>strings.TrimSpace\<close> removes, from both ends, every rune for which \<open>unicode.IsSpace\<close>
  holds. Its table for single bytes is \<open>asciiSpace\<close>: tab, line feed, vertical tab, form
  feed, carriage return and space.
\<close>

definition asciiSpace :: "char \<Rightarrow> bool" where
  "asciiSpace c = (c \<in> {CHR 0x09, CHR 0x0A, CHR 0x0B, CHR 0x0C, CHR 0x0D, CHR 0x20})"

text \<open>
  Beyond ASCII, \<open>unicode.IsSpace\<close> holds of U+0085, U+00A0, U+1680, U+2000 to U+200A,
  U+2028, U+2029, U+202F, U+205F and U+3000. The string is UTF-8, and a rune is decoded
  at the left end by \<open>utf8.DecodeRuneInString\<close> and at the right end by
  \<open>utf8.DecodeLastRuneInString\<close>: either decodes one of these runes exactly when the
  bytes at that end are the rune's UTF-8 encoding (a malformed sequence decodes to
  U+FFFD, which is no space). \<open>spaceRunes\<close> lists the encodings of all runes that
  \<open>unicode.IsSpace\<close> accepts.
\<close>

definition spaceRunes :: "string list" where
  "spaceRunes =
    [[CHR 0x09], [CHR 0x0A], [CHR 0x0B], [CHR 0x0C], [CHR 0x0D], [CHR 0x20],
     [CHR 0xC2, CHR 0x85], [CHR 0xC2, CHR 0xA0],
     [CHR 0xE1, CHR 0x9A, CHR 0x80],
     [CHR 0xE2, CHR 0x80, CHR 0x80], [CHR 0xE2, CHR 0x80, CHR 0x81],
     [CHR 0xE2, CHR 0x80, CHR 0x82], [CHR 0xE2, CHR 0x80, CHR 0x83],
     [CHR 0xE2, CHR 0x80, CHR 0x84], [CHR 0xE2, CHR 0x80, CHR 0x85],
     [CHR 0xE2, CHR 0x80, CHR 0x86], [CHR 0xE2, CHR 0x80, CHR 0x87],
     [CHR 0xE2, CHR 0x80, CHR 0x88], [CHR 0xE2, CHR 0x80, CHR 0x89],
     [CHR 0xE2, CHR 0x80, CHR 0x8A],
     [CHR 0xE2, CHR 0x80, CHR 0xA8], [CHR 0xE2, CHR 0x80, CHR 0xA9],
     [CHR 0xE2, CHR 0x80, CHR 0xAF],
     [CHR 0xE2, CHR 0x81, CHR 0x9F],
     [CHR 0xE3, CHR 0x80, CHR 0x80]]"

text \<open>The width in bytes of the space rune a string starts with, or ends with; 0 if none.\<close>

definition leadingSpaceWidth :: "string \<Rightarrow> nat" where
  "leadingSpaceWidth s =
     (case find (\<lambda>e. prefix e s) spaceRunes of None \<Rightarrow> 0 | Some e \<Rightarrow> length e)"

definition trailingSpaceWidth :: "string \<Rightarrow> nat" where
  "trailingSpaceWidth s =
     (case find (\<lambda>e. suffix e s) spaceRunes of None \<Rightarrow> 0 | Some e \<Rightarrow> length e)"

text \<open>The left scan: drop space runes until the first rune that is none.\<close>

fun TrimLeftSpace :: "string \<Rightarrow> string" where
  "TrimLeftSpace [] = []"
| "TrimLeftSpace (c # cs) =
     (case leadingSpaceWidth (c # cs) of
        0 \<Rightarrow> c # cs
      | Suc k \<Rightarrow> TrimLeftSpace (drop k cs))"

text \<open>
  The right scan, on the reversed string: \<open>trimRevSpace r\<close> is the reverse of what is
  left of \<open>rev r\<close> once its trailing space runes are gone.
\<close>

fun trimRevSpace :: "string \<Rightarrow> string" where
  "trimRevSpace [] = []"
| "trimRevSpace (c # cs) =
     (case trailingSpaceWidth (rev (c # cs)) of
        0 \<Rightarrow> c # cs
      | Suc k \<Rightarrow> trimRevSpace (drop k cs))"

definition TrimRightSpace :: "string \<Rightarrow> string" where
  "TrimRightSpace s = rev (trimRevSpace (rev s))"

definition TrimSpace :: "string \<Rightarrow> string" where
  "TrimSpace s = TrimRightSpace (TrimLeftSpace s)"

subsection \<open>\<open>strings.ToLower\<close>\<close>

text \<open>
  On a string of ASCII bytes only, \<open>strings.ToLower\<close> adds \<open>'a' - 'A'\<close> to every byte in
  \<open>'A'..'Z'\<close>. On any other string it maps \<open>unicode.ToLower\<close> over the runes; that
  mapping needs the Unicode case tables and is a parameter here.
\<close>

definition isASCII :: "string \<Rightarrow> bool" where
  "isASCII s = list_all (\<lambda>c. (of_char c :: nat) < 128) s"

definition lowerByte :: "char \<Rightarrow> char" where
  "lowerByte c =
     (if (65::nat) \<le> of_char c \<and> of_char c \<le> (90::nat)
      then char_of (of_char c + (32::nat)) else c)"

definition ToLower :: "(string \<Rightarrow> string) \<Rightarrow> string \<Rightarrow> string" where
  "ToLower mapUnicodeLower s = (if isASCII s then map lowerByte s else mapUnicodeLower s)"

subsection \<open>\<open>filepath.Ext\<close> and \<open>fmt.Sprintf("%d")\<close>\<close>

datatype GOOS = unix | windows

text \<open>\<open>os.IsPathSeparator\<close>: the slash, and on Windows the backslash too.\<close>

fun IsPathSeparator :: "GOOS \<Rightarrow> char \<Rightarrow> bool" where
  "IsPathSeparator unix c = (c = CHR ''/'')"
| "IsPathSeparator windows c = (c = CHR 0x5C \<or> c = CHR ''/'')"

text \<open>
  \<open>filepath.Ext\<close> scans from the last byte towards the first, stops at a path separator
  and returns the string from the first dot it meets:
  \<^verbatim>\<open>for i := len(path) - 1; i >= 0 && !os.IsPathSeparator(path[i]); i-- {
      if path[i] == '.' { return path[i:] }
  }
  return ""\<close>
  \<open>Ext_loop os path n\<close> is the loop at \<open>i = n - 1\<close>.
\<close>

fun Ext_loop :: "GOOS \<Rightarrow> string \<Rightarrow> nat \<Rightarrow> string" where
  "Ext_loop os path 0 = []"
| "Ext_loop os path (Suc i) =
     (if IsPathSeparator os (path ! i) then []
      else if path ! i = CHR ''.'' then drop i path
      else Ext_loop os path i)"

definition Ext :: "GOOS \<Rightarrow> string \<Rightarrow> string" where
  "Ext os path = Ext_loop os path (length path)"

text \<open>The decimal digits of a natural number, and \<open>%d\<close> of an \<open>int\<close>.\<close>

fun digits :: "nat \<Rightarrow> string" where
  "digits n =
     (if n < 10 then [char_of (48 + n)]
      else digits (n div 10) @ [char_of (48 + n mod 10)])"

definition Sprint_d :: "int \<Rightarrow> string" where
  "Sprint_d i = (if i < 0 then CHR ''-'' # digits (nat (- i)) else digits (nat i))"

section \<open>\<open>internal/utils/url.go\<close>\<close>

definition validSchemes :: "string list" where
  "validSchemes = [''http://'', ''https://'', ''ftp://'', ''file://'']"

text \<open>The first loop of \<open>IsValidURL\<close>: is some scheme a prefix (\<open>break\<close> at the first).\<close>

fun hasValidScheme :: "string \<Rightarrow> string list \<Rightarrow> bool" where
  "hasValidScheme trimmed [] = False"
| "hasValidScheme trimmed (scheme # schemes) =
     (if HasPrefix trimmed scheme then True else hasValidScheme trimmed schemes)"

text \<open>
  The last loop of \<open>IsValidURL\<close>: at the first scheme that is a prefix, return whether
  what follows it is non-empty and has no \<open>" "\<close> in it; \<open>false\<close> when the loop ends.
\<close>

fun afterSchemeCheck :: "string \<Rightarrow> string list \<Rightarrow> bool" where
  "afterSchemeCheck trimmed [] = False"
| "afterSchemeCheck trimmed (scheme # schemes) =
     (if HasPrefix trimmed scheme
      then (let afterScheme = drop (length scheme) trimmed
            in length afterScheme > 0 \<and> \<not> Contains afterScheme '' '')
      else afterSchemeCheck trimmed schemes)"

definition IsValidURL :: "string \<Rightarrow> bool" where
  "IsValidURL url =
     (let trimmed = TrimSpace url in
      if trimmed = [] then False
      else if \<not> hasValidScheme trimmed validSchemes then False
      else if HasPrefix trimmed ''file://'' then length trimmed > 7
      else afterSchemeCheck trimmed validSchemes)"

section \<open>Package \<open>downloader\<close>\<close>

text \<open>
  What the downloader takes from the platform: the operating system (for
  \<open>os.IsPathSeparator\<close>), the Unicode part of \<open>strings.ToLower\<close>, and \<open>filepath.Join\<close> of
  a directory and a file name.
\<close>

record platform =
  goos :: GOOS
  mapUnicodeLower :: "string \<Rightarrow> string"
  Join :: "string \<Rightarrow> string \<Rightarrow> string"

text \<open>The \<open>switch\<close> of \<open>getExtensionFromContentType\<close>: the first case that holds.\<close>

definition getExtensionFromContentType :: "string \<Rightarrow> string" where
  "getExtensionFromContentType contentType =
     (if Contains contentType ''image/jpeg'' then ''.jpg''
      else if Contains contentType ''image/jpg'' then ''.jpg''
      else if Contains contentType ''image/png'' then ''.png''
      else if Contains contentType ''image/gif'' then ''.gif''
      else if Contains contentType ''image/webp'' then ''.webp''
      else if Contains contentType ''image/bmp'' then ''.bmp''
      else if Contains contentType ''image/tiff'' then ''.tiff''
      else [])"

text \<open>The exported \<open>GetExtensionFromContentType\<close> has the same \<open>switch\<close>.\<close>

definition GetExtensionFromContentType :: "string \<Rightarrow> string" where
  "GetExtensionFromContentType contentType =
     (if Contains contentType ''image/jpeg'' then ''.jpg''
      else if Contains contentType ''image/jpg'' then ''.jpg''
      else if Contains contentType ''image/png'' then ''.png''
      else if Contains contentType ''image/gif'' then ''.gif''
      else if Contains contentType ''image/webp'' then ''.webp''
      else if Contains contentType ''image/bmp'' then ''.bmp''
      else if Contains contentType ''image/tiff'' then ''.tiff''
      else [])"

definition validExts :: "string list" where
  "validExts = [''.jpg'', ''.jpeg'', ''.png'', ''.gif'', ''.webp'', ''.bmp'', ''.tiff'', ''.tif'']"

text \<open>The loop over \<open>validExts\<close>: return \<open>ext\<close> at the first entry equal to it.\<close>

fun matchValidExt :: "string \<Rightarrow> string list \<Rightarrow> string option" where
  "matchValidExt ext [] = None"
| "matchValidExt ext (validExt # rest) =
     (if ext = validExt then Some ext else matchValidExt ext rest)"

definition GetExtensionFromURL :: "'a platform_scheme \<Rightarrow> string \<Rightarrow> string" where
  "GetExtensionFromURL pf url =
     (let ext = Ext (goos pf) url in
      if ext \<noteq> [] then
        (case matchValidExt (ToLower (mapUnicodeLower pf) ext) validExts of
           Some e \<Rightarrow> e
         | None \<Rightarrow> [])
      else [])"

text \<open>
  The response of \<open>client.Get\<close> as \<open>DownloadImage\<close> reads it: the status code,
  \<open>Header.Get\<close>, and the body as \<open>io.Copy\<close> transfers it: the bytes that reach the file,
  and the error, if any, that ends the transfer.
\<close>

record response =
  StatusCode :: int
  Header_Get :: "string \<Rightarrow> string"
  Body :: string
  BodyErr :: "string option"

text \<open>
  The network and the operating system: \<open>client_Get url\<close> is the error or the response
  of the GET, \<open>os_Create path\<close> the error of creating the file, if it fails. The files are
  a map from path to content.
\<close>

record environment =
  client_Get :: "string \<Rightarrow> string + response"
  os_Create :: "string \<Rightarrow> string option"

type_synonym filesystem = "string \<rightharpoonup> string"

datatype download_error =
    HTTPRequestFailed string
  | HTTPStatus int
  | CreateFailed string
  | WriteFailed string

definition DownloadImage ::
  "'a platform_scheme \<Rightarrow> environment \<Rightarrow> string \<Rightarrow> string \<Rightarrow> int \<Rightarrow> filesystem
   \<Rightarrow> download_error option \<times> filesystem" where
  "DownloadImage pf env url downloadDir rowNum fs =
     (case client_Get env url of
        Inl err \<Rightarrow> (Some (HTTPRequestFailed err), fs)
      | Inr resp \<Rightarrow>
          if StatusCode resp \<noteq> 200 then (Some (HTTPStatus (StatusCode resp)), fs)
          else
            let contentType = Header_Get resp ''Content-Type'';
                extension0 = getExtensionFromContentType contentType;
                extension =
                  (if extension0 = [] then
                     (let extension1 = GetExtensionFromURL pf url in
                      if extension1 = [] then ''.jpg'' else extension1)
                   else extension0);
                filename = ''image_'' @ Sprint_d rowNum @ extension;
                filepath = Join pf downloadDir filename
            in case os_Create env filepath of
                 Some err \<Rightarrow> (Some (CreateFailed err), fs)
               | None \<Rightarrow>
                   let written = fs(filepath \<mapsto> Body resp)
                   in (case BodyErr resp of
                         Some err \<Rightarrow> (Some (WriteFailed err), written)
                       | None \<Rightarrow> (None, written)))"

section \<open>\<open>internal/csv/processor.go\<close>\<close>

text \<open>
  The counters are Go \<open>int\<close>s. A file offset is below \<open>2^63\<close> and every record takes
  at least one byte, so no counter reaches \<open>2^63\<close>: they are modelled as \<^typ>\<open>int\<close>.
\<close>

record ProcessResult =
  SuccessCount :: int
  ErrorCount :: int
  TotalRows :: int

text \<open>
  One call of \<open>reader.Read()\<close> gives a record or an error (\<open>io.EOF\<close> and parse errors
  alike). An opened file is the list of what the successive calls give; past its end
  every call gives \<open>io.EOF\<close>.
\<close>

datatype read_result = Record "string list" | ReadErr string



datatype csv_error =
    OpenFailed string
  | HeaderReadFailed string
  | HeaderTooShort int int

text \<open>A slice read \<open>xs[i]\<close> panics unless \<open>0 <= i < len(xs)\<close>.\<close>

datatype panic = IndexOutOfRange int nat

definition index :: "'a list \<Rightarrow> int \<Rightarrow> panic + 'a" where
  "index xs i =
     (if 0 \<le> i \<and> i < int (length xs) then Inr (xs ! nat i)
      else Inl (IndexOutOfRange i (length xs)))"

text \<open>
  The callback may do anything (download, write files): it takes the state of the world
  and returns its error, if any (\<open>None\<close> for \<open>nil\<close>), and the new state. The state of
  the loop is \<open>result\<close>, \<open>rowNum\<close>, the world, and the calls of the callback made so
  far, in order.
\<close>

type_synonym ('e, 's) callback = "string \<Rightarrow> int \<Rightarrow> 's \<Rightarrow> 'e option \<times> 's"

record 's loop_state =
  result :: ProcessResult
  rowNum :: int
  calls :: "(string \<times> int) list"
  world :: 's

definition incTotalRows :: "'s loop_state \<Rightarrow> 's loop_state" where
  "incTotalRows st = st\<lparr>result := (result st)\<lparr>TotalRows := TotalRows (result st) + 1\<rparr>\<rparr>"

definition incErrorCount :: "'s loop_state \<Rightarrow> 's loop_state" where
  "incErrorCount st = st\<lparr>result := (result st)\<lparr>ErrorCount := ErrorCount (result st) + 1\<rparr>\<rparr>"

definition incSuccessCount :: "'s loop_state \<Rightarrow> 's loop_state" where
  "incSuccessCount st =
     st\<lparr>result := (result st)\<lparr>SuccessCount := SuccessCount (result st) + 1\<rparr>\<rparr>"

definition incRowNum :: "'s loop_state \<Rightarrow> 's loop_state" where
  "incRowNum st = st\<lparr>rowNum := rowNum st + 1\<rparr>"

text \<open>
  The body of the loop for one record read without error. \<open>Inl\<close> is a panic, with the
  state it happened in; \<open>Inr\<close> is the state at the next iteration.
\<close>

definition processRow ::
  "int \<Rightarrow> ('e, 's) callback \<Rightarrow> string list \<Rightarrow> 's loop_state
   \<Rightarrow> (panic \<times> 's loop_state) + 's loop_state" where
  "processRow urlColumnIndex downloadFunc row st =
     (let st1 = incTotalRows st in
      if int (length row) < urlColumnIndex then Inr (incRowNum (incErrorCount st1))
      else
        (case index row (urlColumnIndex - 1) of
           Inl p \<Rightarrow> Inl (p, st1)
         | Inr cell \<Rightarrow>
             let imageURL = TrimSpace cell in
             if imageURL = [] then Inr (incRowNum (incErrorCount st1))
             else
               (case downloadFunc imageURL (rowNum st1) (world st1) of
                  (err, w) \<Rightarrow>
                    let st2 = st1\<lparr>calls := calls st1 @ [(imageURL, rowNum st1)], world := w\<rparr>
                    in Inr (incRowNum
                             (if err \<noteq> None then incErrorCount st2 else incSuccessCount st2)))))"

text \<open>The \<open>for\<close> loop: \<open>break\<close> at the first read that gives an error.\<close>

fun readLoop ::
  "int \<Rightarrow> ('e, 's) callback \<Rightarrow> read_result list \<Rightarrow> 's loop_state
   \<Rightarrow> (panic \<times> 's loop_state) + 's loop_state" where
  "readLoop urlColumnIndex downloadFunc [] st = Inr st"
| "readLoop urlColumnIndex downloadFunc (ReadErr e # reads) st = Inr st"
| "readLoop urlColumnIndex downloadFunc (Record row # reads) st =
     (case processRow urlColumnIndex downloadFunc row st of
        Inl p \<Rightarrow> Inl p
      | Inr st' \<Rightarrow> readLoop urlColumnIndex downloadFunc reads st')"

text \<open>
  A run of \<open>ProcessCSV\<close>: it panics or returns its pair \<open>(*ProcessResult, error)\<close>
  (\<open>None\<close> for \<open>nil\<close>); with it, the calls of the callback it made and the world it
  leaves.
\<close>

datatype 's run =
  Run (outcome: "panic + ProcessResult option \<times> csv_error option")
      (invocations: "(string \<times> int) list")
      (after: 's)

definition initial :: "'s \<Rightarrow> 's loop_state" where
  "initial w =
     \<lparr>result = \<lparr>SuccessCount = 0, ErrorCount = 0, TotalRows = 0\<rparr>,
      rowNum = 1, calls = [], world = w\<rparr>"

definition ProcessCSV ::
  "(string \<Rightarrow> string + read_result list) \<Rightarrow> string \<Rightarrow> int \<Rightarrow> ('e, 's) callback \<Rightarrow> 's
   \<Rightarrow> 's run" where
  "ProcessCSV os_Open csvFile urlColumnIndex downloadFunc w =
     (case os_Open csvFile of
        Inl err \<Rightarrow> Run (Inr (None, Some (OpenFailed err))) [] w
      | Inr reads \<Rightarrow>
          (case reads of
             [] \<Rightarrow> Run (Inr (None, Some (HeaderReadFailed ''EOF''))) [] w
           | ReadErr e # rest \<Rightarrow> Run (Inr (None, Some (HeaderReadFailed e))) [] w
           | Record header # rest \<Rightarrow>
               if int (length header) < urlColumnIndex
               then Run (Inr (None,
                      Some (HeaderTooShort urlColumnIndex (int (length header))))) [] w
               else
                 (case readLoop urlColumnIndex downloadFunc rest (initial w) of
                    Inl (p, st) \<Rightarrow> Run (Inl p) (calls st) (world st)
                  | Inr st \<Rightarrow> Run (Inr (Some (result st), None)) (calls st) (world st))))"

section \<open>\<open>cmd/go-get-imgs/main.go\<close>\<close>

text \<open>
  The callback that \<open>main\<close> gives to \<open>ProcessCSV\<close>: reject what \<open>IsValidURL\<close> rejects,
  download the rest. Its world is the files.
\<close>

datatype main_error = InvalidURLFormat string | DownloadFailed download_error

definition mainCallback ::
  "'a platform_scheme \<Rightarrow> environment \<Rightarrow> string \<Rightarrow> (main_error, filesystem) callback" where
  "mainCallback pf env downloadsDir url num fs =
     (if \<not> IsValidURL url then (Some (InvalidURLFormat url), fs)
      else (case DownloadImage pf env url downloadsDir num fs of
              (err, fs') \<Rightarrow> (map_option DownloadFailed err, fs')))"

section \<open>The specification's words, and example inputs\<close>

text \<open>
  The specification describes \<open>GetExtensionFromURL\<close> through "the last dot of the URL's
  final path-like segment". The final segment is what follows the last path separator;
  its extension starts at its last dot and is empty when it has no dot.
\<close>

definition spec_lastSegment :: "GOOS \<Rightarrow> string \<Rightarrow> string" where
  "spec_lastSegment os url = rev (takeWhile (\<lambda>c. \<not> IsPathSeparator os c) (rev url))"

definition spec_extension :: "string \<Rightarrow> string" where
  "spec_extension seg =
     (if CHR ''.'' \<in> set seg
      then CHR ''.'' # rev (takeWhile (\<lambda>c. c \<noteq> CHR ''.'') (rev seg))
      else [])"

text \<open>
  What the specification says \<open>DownloadImage\<close> does with a resolved extension: create
  \<open>downloadDir/image_<rowNum><extension>\<close> and stream the body into it.
\<close>

definition spec_saveAs ::
  "'a platform_scheme \<Rightarrow> environment \<Rightarrow> string \<Rightarrow> int \<Rightarrow> string \<Rightarrow> response \<Rightarrow> filesystem
   \<Rightarrow> download_error option \<times> filesystem" where
  "spec_saveAs pf env downloadDir num extension resp fs =
     (let filepath = Join pf downloadDir (''image_'' @ Sprint_d num @ extension)
      in case os_Create env filepath of
           Some err \<Rightarrow> (Some (CreateFailed err), fs)
         | None \<Rightarrow> (map_option WriteFailed (BodyErr resp), fs(filepath \<mapsto> Body resp)))"

text \<open>
  "The data records successfully read before the reader first signals end-of-input or
  an error": the records at the front of the list of reads.
\<close>

fun recordsRead :: "read_result list \<Rightarrow> string list list" where
  "recordsRead (Record row # reads) = row # recordsRead reads"
| "recordsRead (ReadErr e # reads) = []"
| "recordsRead [] = []"

text \<open>
  "The row number passed to \<open>onRow\<close> for the nth data record is n": the calls of a run are
  those of the numbered records, in order, each record giving a call when the read of
  column \<open>urlColumnIndex - 1\<close> succeeds and the cell is not empty once trimmed.
\<close>

definition spec_call :: "int \<Rightarrow> int \<times> string list \<Rightarrow> (string \<times> int) option" where
  "spec_call urlColumnIndex numbered =
     (case index (snd numbered) (urlColumnIndex - 1) of
        Inl p \<Rightarrow> None
      | Inr cell \<Rightarrow>
          if TrimSpace cell = [] then None else Some (TrimSpace cell, fst numbered))"

definition numberedFrom :: "int \<Rightarrow> string list list \<Rightarrow> (int \<times> string list) list" where
  "numberedFrom k rows = zip (map (\<lambda>i. k + int i) [0..<length rows]) rows"

definition spec_calls :: "int \<Rightarrow> string list list \<Rightarrow> (string \<times> int) list" where
  "spec_calls urlColumnIndex rows =
     List.map_filter (spec_call urlColumnIndex) (numberedFrom 1 rows)"

text \<open>
  The arguments the callback is given, as the callback itself sees them: \<open>recording f\<close>
  is \<open>f\<close> keeping, in its world, the list of the arguments of its calls.
\<close>

definition recording :: "('e, 's) callback \<Rightarrow> ('e, (string \<times> int) list \<times> 's) callback" where
  "recording f url num logged =
     (case f url num (snd logged) of
        (err, w) \<Rightarrow> (err, (fst logged @ [(url, num)], w)))"

text \<open>The world after calling \<open>f\<close> with each pair of a list of arguments, in order.\<close>

definition spec_world :: "('e, 's) callback \<Rightarrow> 's \<Rightarrow> (string \<times> int) list \<Rightarrow> 's" where
  "spec_world f w cs = foldl (\<lambda>w c. snd (f (fst c) (snd c) w)) w cs"



text \<open>
  The structural failures: the file cannot be opened, the header cannot be read, or the
  header has fewer than \<open>urlColumnIndex\<close> columns.
\<close>

definition spec_structuralFailure ::
  "(string \<Rightarrow> string + read_result list) \<Rightarrow> string \<Rightarrow> int \<Rightarrow> bool" where
  "spec_structuralFailure os_Open csvFile urlColumnIndex =
     (case os_Open csvFile of
        Inl err \<Rightarrow> True
      | Inr [] \<Rightarrow> True
      | Inr (ReadErr e # reads) \<Rightarrow> True
      | Inr (Record header # reads) \<Rightarrow> int (length header) < urlColumnIndex)"

text \<open>A platform, responses, an environment and files to run the definitions on.\<close>

definition exampleRows :: "read_result list" where
  "exampleRows =
     [Record [''1'', '' https://example.com/a.jpg ''],
      Record [''2'', ''   ''],
      Record [''3'', ''https://example.com/missing''],
      Record [''4'', ''invalid-url''],
      Record [''5'', ''https://example.com/c''],
      ReadErr ''record on line 7: wrong number of fields'',
      Record [''7'', ''https://example.com/b.GIF'']]"

definition exampleOpen :: "string \<Rightarrow> string + read_result list" where
  "exampleOpen name =
     (if name = ''data.csv'' then Inr (Record [''id'', ''url''] # exampleRows)
      else if name = ''empty.csv'' then Inr []
      else if name = ''broken.csv'' then Inr [ReadErr ''parse error on line 1'']
      else if name = ''narrow.csv'' then Inr [Record [''id''], Record [''1'']]
      else Inl ''no such file or directory'')"





definition unixPlatform :: platform where
  "unixPlatform =
     \<lparr>goos = unix, mapUnicodeLower = (\<lambda>s. s), Join = (\<lambda>dir name. dir @ ''/'' @ name)\<rparr>"

definition exampleResponse :: "int \<Rightarrow> string \<Rightarrow> response" where
  "exampleResponse status contentType =
     \<lparr>StatusCode = status,
      Header_Get = (\<lambda>key. if key = ''Content-Type'' then contentType else []),
      Body = ''data'', BodyErr = None\<rparr>"

definition exampleEnv :: environment where
  "exampleEnv =
     \<lparr>client_Get = (\<lambda>url.
        if url = ''https://example.com/a.jpg'' then Inr (exampleResponse 200 ''image/png'')
        else if url = ''https://example.com/b.GIF'' then Inr (exampleResponse 200 ''text/html'')
        else if url = ''https://example.com/c'' then Inr (exampleResponse 200 ''text/html'')
        else if url = ''https://example.com/missing'' then Inr (exampleResponse 404 ''image/png'')
        else Inl ''no such host''),
      os_Create = (\<lambda>path. None)\<rparr>"

definition exampleCallback :: "(main_error, filesystem) callback" where
  "exampleCallback = mainCallback unixPlatform exampleEnv ''downloads''"

section \<open>The string model on ASCII\<close>

text \<open>
  On a string of ASCII bytes the space runes are the six bytes of \<open>asciiSpace\<close>, and
  \<open>TrimSpace\<close> drops them from both ends.
\<close>

lemma leadingSpaceWidth_ASCII:
  assumes "(of_char c :: nat) < 128"
  shows "leadingSpaceWidth (c # cs) = (if asciiSpace c then 1 else 0)"
proof -
  have "c \<noteq> CHR 0xC2" "c \<noteq> CHR 0xE1" "c \<noteq> CHR 0xE2" "c \<noteq> CHR 0xE3"
    using assms by auto
  then show ?thesis
    by (simp add: leadingSpaceWidth_def spaceRunes_def asciiSpace_def)
qed

lemma trailingSpaceWidth_ASCII:
  assumes "(of_char c :: nat) < 128"
  shows "trailingSpaceWidth (rev cs @ [c]) = (if asciiSpace c then 1 else 0)"
proof -
  have "c \<noteq> CHR 0x85" "c \<noteq> CHR 0xA0" "c \<noteq> CHR 0x80" "c \<noteq> CHR 0x81" "c \<noteq> CHR 0x82"
    "c \<noteq> CHR 0x83" "c \<noteq> CHR 0x84" "c \<noteq> CHR 0x86" "c \<noteq> CHR 0x87" "c \<noteq> CHR 0x88"
    "c \<noteq> CHR 0x89" "c \<noteq> CHR 0x8A" "c \<noteq> CHR 0xA8" "c \<noteq> CHR 0xA9" "c \<noteq> CHR 0xAF"
    "c \<noteq> CHR 0x9F"
    using assms by auto
  then show ?thesis
    by (simp add: trailingSpaceWidth_def spaceRunes_def asciiSpace_def suffix_to_prefix)
qed

lemma TrimLeftSpace_ASCII: "isASCII s \<Longrightarrow> TrimLeftSpace s = dropWhile asciiSpace s"
  by (induction s) (simp_all add: isASCII_def leadingSpaceWidth_ASCII)

lemma trimRevSpace_ASCII: "isASCII s \<Longrightarrow> trimRevSpace s = dropWhile asciiSpace s"
  by (induction s) (simp_all add: isASCII_def trailingSpaceWidth_ASCII)

lemma isASCII_dropWhile: "isASCII s \<Longrightarrow> isASCII (dropWhile P s)"
  by (induction s) (simp_all add: isASCII_def)

lemma isASCII_rev: "isASCII (rev s) = isASCII s"
  by (simp add: isASCII_def list_all_iff)

lemma TrimSpace_ASCII:
  "isASCII s \<Longrightarrow> TrimSpace s = rev (dropWhile asciiSpace (rev (dropWhile asciiSpace s)))"
  by (simp add: TrimSpace_def TrimRightSpace_def TrimLeftSpace_ASCII trimRevSpace_ASCII
      isASCII_dropWhile isASCII_rev)

section \<open>The tables of the repository's tests\<close>

text \<open>
  The cases of \<open>TestGetExtensionFromContentType\<close>, \<open>TestGetExtensionFromURL\<close>,
  \<open>TestCrossPlatformPathHandling\<close> and \<open>TestIsValidURL\<close> (with the specification's
  \<open>file://\<close>), run on the definitions above.
\<close>

lemma GetExtensionFromContentType_same:
  "GetExtensionFromContentType contentType = getExtensionFromContentType contentType"
  by (simp add: GetExtensionFromContentType_def getExtensionFromContentType_def)

lemma TestGetExtensionFromContentType:
  "map GetExtensionFromContentType
     [''image/jpeg'', ''image/jpg'', ''image/png'', ''image/gif'', ''image/webp'', ''image/bmp'',
      ''image/tiff'', ''text/html'', ''application/json'', []] =
     [''.jpg'', ''.jpg'', ''.png'', ''.gif'', ''.webp'', ''.bmp'', ''.tiff'', [], [], []]"
  by code_simp

lemma TestGetExtensionFromURL:
  "map (GetExtensionFromURL unixPlatform)
     [''https://example.com/image.jpg'', ''https://example.com/image.jpeg'',
      ''https://example.com/image.png'', ''https://example.com/image.gif'',
      ''https://example.com/image.webp'', ''https://example.com/image.bmp'',
      ''https://example.com/image.tiff'', ''https://example.com/image.tif'',
      ''https://example.com/image.JPG'', ''https://example.com/image.PNG'',
      ''https://example.com/image'', ''https://example.com/image.txt'',
      ''https://example.com/'', ''https://example.com/path/to/image.png''] =
     [''.jpg'', ''.jpeg'', ''.png'', ''.gif'', ''.webp'', ''.bmp'', ''.tiff'', ''.tif'',
      ''.jpg'', ''.png'', [], [], [], ''.png'']"
  by code_simp

lemma TestIsValidURL:
  "map IsValidURL
     [''https://example.com/image.jpg'', ''http://example.com/image.png'',
      ''ftp://example.com/image.gif'', ''file:///path/to/image.jpg'', ''invalid-url'', [],
      ''   '', ''  https://example.com/image.jpg  '', ''  invalid-url  '', ''https://'',
      ''http://'', ''file://''] =
     [True, True, True, True, False, False, False, True, False, False, False, False]"
  by code_simp

section \<open>Properties of \<open>IsValidURL\<close>\<close>

lemma Contains_singleton: "Contains s [c] = (c \<in> set s)"
  by (induction s) (auto simp: HasPrefix_def)

lemma Contains_iff: "Contains s sub = (\<exists>ps ss. s = ps @ sub @ ss)"
proof (induction s)
  case Nil
  then show ?case by auto
next
  case (Cons c cs)
  have hp: "HasPrefix (c # cs) sub = (\<exists>ss. c # cs = sub @ ss)"
    unfolding HasPrefix_def
    by (metis append_eq_conv_conj append_take_drop_id length_append le_add1)
  show ?case
    apply (simp only: Contains.simps Cons.IH hp)
    apply (rule iffI)
     apply (erule disjE)
      apply (metis append_Nil)
     apply (metis append_Cons)
    apply (elim exE)
    subgoal for ps ss
      by (cases ps) auto
    done
qed

lemma hasValidScheme_iff: "hasValidScheme t ss = (\<exists>p \<in> set ss. HasPrefix t p)"
  by (induction ss) auto

lemma HasPrefix_Cons: "HasPrefix (c # cs) (d # ds) = (c = d \<and> HasPrefix cs ds)"
  by (auto simp: HasPrefix_def)

lemma HasPrefix_Nil: "HasPrefix s [] = True" "HasPrefix [] (d # ds) = False"
  by (auto simp: HasPrefix_def)

lemma HasPrefix_drop: "HasPrefix t p \<Longrightarrow> t = p @ drop (length p) t"
  by (metis HasPrefix_def append_take_drop_id)

lemma IsValidURL_http:
  assumes "HasPrefix (TrimSpace s) ''http://''"
  shows "IsValidURL s = (drop 7 (TrimSpace s) \<noteq> [] \<and> CHR '' '' \<notin> set (drop 7 (TrimSpace s)))"
proof -
  obtain r where t: "TrimSpace s = ''http://'' @ r"
    using HasPrefix_drop [OF assms] by blast
  show ?thesis
    unfolding IsValidURL_def t
    by (simp add: validSchemes_def HasPrefix_Cons HasPrefix_Nil Contains_singleton)
qed

lemma IsValidURL_https:
  assumes "HasPrefix (TrimSpace s) ''https://''"
  shows "IsValidURL s = (drop 8 (TrimSpace s) \<noteq> [] \<and> CHR '' '' \<notin> set (drop 8 (TrimSpace s)))"
proof -
  obtain r where t: "TrimSpace s = ''https://'' @ r"
    using HasPrefix_drop [OF assms] by blast
  show ?thesis
    unfolding IsValidURL_def t
    by (simp add: validSchemes_def HasPrefix_Cons HasPrefix_Nil Contains_singleton)
qed

lemma IsValidURL_ftp:
  assumes "HasPrefix (TrimSpace s) ''ftp://''"
  shows "IsValidURL s = (drop 6 (TrimSpace s) \<noteq> [] \<and> CHR '' '' \<notin> set (drop 6 (TrimSpace s)))"
proof -
  obtain r where t: "TrimSpace s = ''ftp://'' @ r"
    using HasPrefix_drop [OF assms] by blast
  show ?thesis
    unfolding IsValidURL_def t
    by (simp add: validSchemes_def HasPrefix_Cons HasPrefix_Nil Contains_singleton)
qed

lemma IsValidURL_file:
  assumes "HasPrefix (TrimSpace s) ''file://''"
  shows "IsValidURL s = (length (TrimSpace s) > 7)"
proof -
  obtain r where t: "TrimSpace s = ''file://'' @ r"
    using HasPrefix_drop [OF assms] by blast
  show ?thesis
    unfolding IsValidURL_def t
    by (simp add: validSchemes_def HasPrefix_Cons HasPrefix_Nil)
qed

lemma IsValidURL_no_scheme:
  assumes "\<forall>scheme \<in> set validSchemes. \<not> HasPrefix (TrimSpace s) scheme"
  shows "\<not> IsValidURL s"
  using assms by (simp add: IsValidURL_def hasValidScheme_iff Let_def)

text \<open>
  Claim C2, as the code has it. \<open>IsValidURL\<close> trims white space from both ends first.
  It is false when the trimmed string is empty, and false when the trimmed string starts
  with none of \<open>http://\<close>, \<open>https://\<close>, \<open>ftp://\<close>, \<open>file://\<close>. For a trimmed string that
  starts with \<open>file://\<close> it is true exactly when the length exceeds 7. For a trimmed
  string that starts with one of the other three schemes it is true exactly when what
  follows the scheme is non-empty and contains no space character (the byte \<open>0x20\<close>);
  other white space, such as a tab, is not looked for.
\<close>

theorem IsValidURL_cases:
  "(TrimSpace s = [] \<longrightarrow> \<not> IsValidURL s) \<and>
   ((\<forall>scheme \<in> set validSchemes. \<not> HasPrefix (TrimSpace s) scheme) \<longrightarrow> \<not> IsValidURL s) \<and>
   (HasPrefix (TrimSpace s) ''file://'' \<longrightarrow> (IsValidURL s \<longleftrightarrow> length (TrimSpace s) > 7)) \<and>
   (\<forall>scheme \<in> {''http://'', ''https://'', ''ftp://''}.
      HasPrefix (TrimSpace s) scheme \<longrightarrow>
        (IsValidURL s \<longleftrightarrow>
           drop (length scheme) (TrimSpace s) \<noteq> [] \<and>
           CHR '' '' \<notin> set (drop (length scheme) (TrimSpace s))))"
proof (intro conjI impI ballI)
  assume "TrimSpace s = []"
  then show "\<not> IsValidURL s" by (simp add: IsValidURL_def)
next
  assume "\<forall>scheme \<in> set validSchemes. \<not> HasPrefix (TrimSpace s) scheme"
  then show "\<not> IsValidURL s" by (rule IsValidURL_no_scheme)
next
  assume "HasPrefix (TrimSpace s) ''file://''"
  then show "IsValidURL s \<longleftrightarrow> length (TrimSpace s) > 7" by (rule IsValidURL_file)
next
  fix scheme
  assume m: "scheme \<in> {''http://'', ''https://'', ''ftp://''}"
    and p: "HasPrefix (TrimSpace s) scheme"
  have len: "scheme = ''http://'' \<Longrightarrow> length scheme = 7"
    "scheme = ''https://'' \<Longrightarrow> length scheme = 8" "scheme = ''ftp://'' \<Longrightarrow> length scheme = 6"
    by simp_all
  from m consider "scheme = ''http://''" | "scheme = ''https://''" | "scheme = ''ftp://''"
    by blast
  then show "IsValidURL s \<longleftrightarrow>
      drop (length scheme) (TrimSpace s) \<noteq> [] \<and>
      CHR '' '' \<notin> set (drop (length scheme) (TrimSpace s))"
  proof cases
    case 1
    with p have "HasPrefix (TrimSpace s) ''http://''" by simp
    from IsValidURL_http [OF this] show ?thesis by (simp only: len(1) [OF 1])
  next
    case 2
    with p have "HasPrefix (TrimSpace s) ''https://''" by simp
    from IsValidURL_https [OF this] show ?thesis by (simp only: len(2) [OF 2])
  next
    case 3
    with p have "HasPrefix (TrimSpace s) ''ftp://''" by simp
    from IsValidURL_ftp [OF this] show ?thesis by (simp only: len(3) [OF 3])
  qed
qed

theorem IsValidURL_cases_witness:
  "TrimSpace ''   '' = [] \<and> \<not> IsValidURL ''   '' \<and>
   \<not> list_ex (HasPrefix (TrimSpace ''invalid-url'')) validSchemes \<and>
   \<not> IsValidURL ''invalid-url'' \<and>
   HasPrefix (TrimSpace ''file:///a/b.png'') ''file://'' \<and> IsValidURL ''file:///a/b.png'' \<and>
   ''https://'' \<in> {''http://'', ''https://'', ''ftp://''} \<and>
   HasPrefix (TrimSpace ''  https://example.com/a.jpg  '') ''https://'' \<and>
   IsValidURL ''  https://example.com/a.jpg  ''"
proof -
  have h1: "TrimSpace ''   '' = []"
    by code_simp
  have n2: "\<not> list_ex (HasPrefix (TrimSpace ''invalid-url'')) validSchemes"
    by code_simp
  then have h2: "\<forall>scheme \<in> set validSchemes. \<not> HasPrefix (TrimSpace ''invalid-url'') scheme"
    by (simp add: list_ex_iff)
  have h3: "HasPrefix (TrimSpace ''file:///a/b.png'') ''file://''"
    and l3: "length (TrimSpace ''file:///a/b.png'') > 7"
    by code_simp+
  have m4: "''https://'' \<in> {''http://'', ''https://'', ''ftp://''}"
    by simp
  have h4: "HasPrefix (TrimSpace ''  https://example.com/a.jpg  '') ''https://''"
    and r4: "drop (length ''https://'') (TrimSpace ''  https://example.com/a.jpg  '') \<noteq> [] \<and>
      CHR '' '' \<notin> set (drop (length ''https://'') (TrimSpace ''  https://example.com/a.jpg  ''))"
    by code_simp+
  have c1: "\<not> IsValidURL ''   ''"
    using IsValidURL_cases [of "''   ''"] h1 by blast
  have c2: "\<not> IsValidURL ''invalid-url''"
    using IsValidURL_cases [of "''invalid-url''"] h2 by blast
  have c3: "IsValidURL ''file:///a/b.png''"
    using IsValidURL_cases [of "''file:///a/b.png''"] h3 l3 by blast
  have c4: "IsValidURL ''  https://example.com/a.jpg  ''"
    using IsValidURL_cases [of "''  https://example.com/a.jpg  ''"] m4 h4 r4 by blast
  show ?thesis
    using h1 n2 h3 m4 h4 c1 c2 c3 c4 by blast
qed

text \<open>
  The claim as written asks for "no whitespace character" after the scheme. A tab is
  white space (\<open>asciiSpace\<close> is the table \<open>TrimSpace\<close> itself uses), it survives
  trimming inside the string, and the URL is accepted all the same.
\<close>

theorem IsValidURL_tab_counterexample:
  "HasPrefix (TrimSpace (''http://a'' @ [CHR 0x09] @ ''b'')) ''http://'' \<and>
   \<not> (IsValidURL (''http://a'' @ [CHR 0x09] @ ''b'') \<longleftrightarrow>
        drop 7 (TrimSpace (''http://a'' @ [CHR 0x09] @ ''b'')) \<noteq> [] \<and>
        \<not> list_ex asciiSpace (drop 7 (TrimSpace (''http://a'' @ [CHR 0x09] @ ''b''))))"
  by code_simp

section \<open>Properties of the extension resolvers\<close>

lemma dot_no_separator: "\<not> IsPathSeparator os (CHR ''.'')"
  by (cases os) simp_all

lemma Ext_loop_append:
  "Ext_loop os (xs @ ys) (length xs) =
     (if CHR ''.'' \<in> set (spec_lastSegment os xs)
      then spec_extension (spec_lastSegment os xs) @ ys else [])"
proof (induction xs arbitrary: ys rule: rev_induct)
  case Nil
  then show ?case by (simp add: spec_lastSegment_def)
next
  case (snoc c zs)
  have step: "Ext_loop os ((zs @ [c]) @ ys) (length (zs @ [c])) =
      (if IsPathSeparator os c then []
       else if c = CHR ''.'' then c # ys
       else Ext_loop os (zs @ (c # ys)) (length zs))"
    by (simp add: nth_append)
  show ?case
  proof (cases "IsPathSeparator os c")
    case True
    then show ?thesis by (simp add: step spec_lastSegment_def)
  next
    case sep: False
    show ?thesis
    proof (cases "c = CHR ''.''")
      case True
      with sep show ?thesis
        by (simp add: step spec_lastSegment_def spec_extension_def)
    next
      case False
      with sep snoc.IH [of "c # ys"] show ?thesis
        by (simp add: step spec_lastSegment_def spec_extension_def)
    qed
  qed
qed

lemma Ext_spec: "Ext os url = spec_extension (spec_lastSegment os url)"
  using Ext_loop_append [of os url "[]"]
  by (simp add: Ext_def spec_extension_def)

lemma matchValidExt_Some: "matchValidExt ext vs = Some e \<Longrightarrow> e = ext \<and> ext \<in> set vs"
  by (induction vs) (auto split: if_splits)

lemma matchValidExt_None: "(matchValidExt ext vs = None) = (ext \<notin> set vs)"
  by (induction vs) auto

lemma GetExtensionFromURL_eq:
  "GetExtensionFromURL pf url =
     (if ToLower (mapUnicodeLower pf) (Ext (goos pf) url) \<in> set validExts \<and> Ext (goos pf) url \<noteq> []
      then ToLower (mapUnicodeLower pf) (Ext (goos pf) url) else [])"
  by (auto simp: GetExtensionFromURL_def Let_def matchValidExt_None split: option.splits
      dest: matchValidExt_Some)

lemma Ext_JPG: "Ext os (p @ ''.JPG'') = ''.JPG''"
  by (cases os) (simp_all add: Ext_def nth_append)

lemma ToLower_ASCII: "isASCII s \<Longrightarrow> ToLower f s = map lowerByte s"
  by (simp add: ToLower_def)

lemma ToLower_JPG: "ToLower f ''.JPG'' = ''.jpg''"
proof -
  have "isASCII ''.JPG''" and "map lowerByte ''.JPG'' = ''.jpg''"
    by code_simp+
  then show ?thesis by (simp only: ToLower_ASCII)
qed

lemma Ext_no_dot: "CHR ''.'' \<notin> set url \<Longrightarrow> Ext os url = []"
  unfolding Ext_spec spec_extension_def spec_lastSegment_def
  by (auto dest: set_takeWhileD)

lemma lowerByte_fixed:
  "lowerByte (CHR ''.'') = CHR ''.''" "lowerByte (CHR ''/'') = CHR ''/''"
  "lowerByte (CHR 0x5C) = CHR 0x5C"
  by code_simp+

lemma lowerByte_changes: "lowerByte c \<noteq> c \<Longrightarrow> (97::nat) \<le> of_char (lowerByte c) \<and> of_char (lowerByte c) \<le> (122::nat)"
  by (auto simp: lowerByte_def split: if_splits)

lemma lowerByte_dot: "lowerByte c = CHR ''.'' \<Longrightarrow> c = CHR ''.''"
  using lowerByte_changes [of c] by (cases "lowerByte c = c") auto

lemma lowerByte_not_separator: "IsPathSeparator os c \<Longrightarrow> IsPathSeparator os (lowerByte c)"
  by (cases os) (auto simp: lowerByte_fixed)

lemma lowerByte_ASCII: "(of_char (lowerByte c) :: nat) < 128 \<Longrightarrow> (of_char c :: nat) < 128"
  by (auto simp: lowerByte_def split: if_splits)

lemma isASCII_lower: "isASCII (map lowerByte e) \<Longrightarrow> isASCII e"
  by (induction e) (auto simp: isASCII_def dest: lowerByte_ASCII)

lemma Ext_suffix:
  assumes "CHR ''.'' \<notin> set r" and "\<forall>c \<in> set r. \<not> IsPathSeparator os c"
  shows "Ext os (p @ CHR ''.'' # r) = CHR ''.'' # r"
proof -
  have "takeWhile (\<lambda>c. \<not> IsPathSeparator os c) (rev r @ CHR ''.'' # rev p) =
      rev r @ takeWhile (\<lambda>c. \<not> IsPathSeparator os c) (CHR ''.'' # rev p)"
    by (rule takeWhile_append2) (use assms(2) in auto)
  then have t: "takeWhile (\<lambda>c. \<not> IsPathSeparator os c) (rev r @ CHR ''.'' # rev p) =
      rev r @ CHR ''.'' # takeWhile (\<lambda>c. \<not> IsPathSeparator os c) (rev p)"
    by (simp add: dot_no_separator)
  have "takeWhile (\<lambda>c. c \<noteq> CHR ''.'') (rev r @ CHR ''.'' # xs) =
      rev r @ takeWhile (\<lambda>c. c \<noteq> CHR ''.'') (CHR ''.'' # xs)" for xs
    by (rule takeWhile_append2) (use assms(1) in auto)
  then have d: "takeWhile (\<lambda>c. c \<noteq> CHR ''.'') (rev r @ CHR ''.'' # xs) = rev r" for xs
    by simp
  show ?thesis
    by (simp add: Ext_spec spec_lastSegment_def spec_extension_def t d)
qed

lemma lower_allowed_shape:
  assumes "map lowerByte e \<in> set validExts"
  shows "\<exists>r. e = CHR ''.'' # r \<and> CHR ''.'' \<notin> set r \<and> (\<forall>c \<in> set r. \<not> IsPathSeparator os c)"
proof -
  obtain c r where e: "e = c # r"
    using assms by (cases e) (auto simp: validExts_def)
  have tl: "CHR ''.'' \<notin> set (map lowerByte r)"
    and tls: "\<forall>x \<in> set (map lowerByte r). \<not> IsPathSeparator os x"
    and hd: "lowerByte c = CHR ''.''"
    using assms unfolding e validExts_def by (cases os; auto)+
  have 1: "c = CHR ''.''"
    using hd by (rule lowerByte_dot)
  have 2: "CHR ''.'' \<notin> set r"
    using tl lowerByte_fixed(1) by (metis image_eqI list.set_map)
  have 3: "\<forall>x \<in> set r. \<not> IsPathSeparator os x"
    using tls lowerByte_not_separator by auto
  from e 1 2 3 show ?thesis by blast
qed

lemma GetExtensionFromURL_any_case:
  assumes "map lowerByte e \<in> set validExts"
  shows "GetExtensionFromURL pf (p @ e) = map lowerByte e"
proof -
  obtain r where e: "e = CHR ''.'' # r" and r: "CHR ''.'' \<notin> set r"
    "\<forall>c \<in> set r. \<not> IsPathSeparator (goos pf) c"
    using lower_allowed_shape [OF assms] by blast
  have ext: "Ext (goos pf) (p @ e) = e"
    unfolding e by (rule Ext_suffix [OF r])
  have "isASCII (map lowerByte e)"
    using assms by (auto simp: validExts_def isASCII_def)
  then have low: "ToLower (mapUnicodeLower pf) e = map lowerByte e"
    by (simp add: ToLower_def isASCII_lower)
  have ne: "e \<noteq> []"
    using e by simp
  show ?thesis
    unfolding GetExtensionFromURL_eq ext low using assms ne by simp
qed

lemma GetExtensionFromURL_char:
  "GetExtensionFromURL pf url =
     (if ToLower (mapUnicodeLower pf) (Ext (goos pf) url) \<in> set validExts
      then ToLower (mapUnicodeLower pf) (Ext (goos pf) url) else [])"
proof (cases "Ext (goos pf) url = []")
  case True
  then show ?thesis
    by (simp add: GetExtensionFromURL_eq ToLower_def isASCII_def validExts_def)
next
  case False
  then show ?thesis
    by (simp add: GetExtensionFromURL_eq)
qed

text \<open>
  Claim C9. \<open>GetExtensionFromURL\<close> returns the lower-casing of the extension that starts
  at the last dot of the URL's final path segment when that lower-casing is one of
  \<open>.jpg\<close>, \<open>.jpeg\<close>, \<open>.png\<close>, \<open>.gif\<close>, \<open>.webp\<close>, \<open>.bmp\<close>, \<open>.tiff\<close>, \<open>.tif\<close>, and the
  empty string otherwise; so a non-empty result is one of these eight. Matching ignores
  case: a URL that ends in any spelling of one of the eight, in upper or lower case
  letters, gives that extension in lower case, and every URL ending in \<open>.JPG\<close> gives
  \<open>.jpg\<close>. A URL without a dot gives the empty string, and so does a URL whose
  lower-cased extension is not in the list.
\<close>

theorem GetExtensionFromURL_spec:
  "GetExtensionFromURL pf url =
     (if ToLower (mapUnicodeLower pf) (spec_extension (spec_lastSegment (goos pf) url))
           \<in> {''.jpg'', ''.jpeg'', ''.png'', ''.gif'', ''.webp'', ''.bmp'', ''.tiff'', ''.tif''}
      then ToLower (mapUnicodeLower pf) (spec_extension (spec_lastSegment (goos pf) url))
      else []) \<and>
   (GetExtensionFromURL pf url = [] \<or>
      GetExtensionFromURL pf url =
        ToLower (mapUnicodeLower pf) (spec_extension (spec_lastSegment (goos pf) url))) \<and>
   (GetExtensionFromURL pf url \<noteq> [] \<longrightarrow>
      GetExtensionFromURL pf url \<in>
        {''.jpg'', ''.jpeg'', ''.png'', ''.gif'', ''.webp'', ''.bmp'', ''.tiff'', ''.tif''}) \<and>
   GetExtensionFromURL pf (p @ ''.JPG'') = ''.jpg'' \<and>
   (\<forall>e. map lowerByte e
          \<in> {''.jpg'', ''.jpeg'', ''.png'', ''.gif'', ''.webp'', ''.bmp'', ''.tiff'', ''.tif''} \<longrightarrow>
        GetExtensionFromURL pf (p @ e) = map lowerByte e) \<and>
   (CHR ''.'' \<notin> set url \<longrightarrow> GetExtensionFromURL pf url = []) \<and>
   (ToLower (mapUnicodeLower pf) (spec_extension (spec_lastSegment (goos pf) url))
        \<notin> {''.jpg'', ''.jpeg'', ''.png'', ''.gif'', ''.webp'', ''.bmp'', ''.tiff'', ''.tif''}
      \<longrightarrow> GetExtensionFromURL pf url = [])"
proof -
  have exts: "set validExts =
      {''.jpg'', ''.jpeg'', ''.png'', ''.gif'', ''.webp'', ''.bmp'', ''.tiff'', ''.tif''}"
    by (simp add: validExts_def)
  have jpg: "''.jpg'' \<in> set validExts"
    by (simp add: validExts_def)
  have 0: "GetExtensionFromURL pf url =
     (if ToLower (mapUnicodeLower pf) (spec_extension (spec_lastSegment (goos pf) url))
           \<in> set validExts
      then ToLower (mapUnicodeLower pf) (spec_extension (spec_lastSegment (goos pf) url))
      else [])"
    using GetExtensionFromURL_char [of pf url] by (simp only: Ext_spec)
  have 1: "GetExtensionFromURL pf url = [] \<or>
      GetExtensionFromURL pf url =
        ToLower (mapUnicodeLower pf) (spec_extension (spec_lastSegment (goos pf) url))"
    by (simp add: GetExtensionFromURL_eq Ext_spec)
  have 2: "GetExtensionFromURL pf url \<noteq> [] \<longrightarrow> GetExtensionFromURL pf url \<in> set validExts"
    by (simp add: GetExtensionFromURL_eq)
  have 3: "GetExtensionFromURL pf (p @ ''.JPG'') = ''.jpg''"
    using jpg by (simp add: GetExtensionFromURL_eq Ext_JPG ToLower_JPG)
  have 4: "\<forall>e. map lowerByte e \<in> set validExts \<longrightarrow>
      GetExtensionFromURL pf (p @ e) = map lowerByte e"
    using GetExtensionFromURL_any_case by blast
  have 5: "CHR ''.'' \<notin> set url \<longrightarrow> GetExtensionFromURL pf url = []"
    by (simp add: GetExtensionFromURL_eq Ext_no_dot)
  have 6: "ToLower (mapUnicodeLower pf) (spec_extension (spec_lastSegment (goos pf) url))
        \<notin> set validExts \<longrightarrow> GetExtensionFromURL pf url = []"
    by (simp add: GetExtensionFromURL_eq Ext_spec)
  from 0 1 2 3 4 5 6 show ?thesis
    unfolding exts by (intro conjI)
qed

theorem GetExtensionFromURL_spec_witness:
  "GetExtensionFromURL unixPlatform ''https://example.com/image.PNG'' \<noteq> [] \<and>
   GetExtensionFromURL unixPlatform ''https://example.com/image.PNG'' = ''.png'' \<and>
   map lowerByte ''.jpg'' = ''.jpg'' \<and>
   GetExtensionFromURL unixPlatform (''https://example.com/image'' @ ''.jpg'') = ''.jpg'' \<and>
   map lowerByte ''.Jpeg'' = ''.jpeg'' \<and>
   GetExtensionFromURL unixPlatform (''https://example.com/image'' @ ''.Jpeg'') = ''.jpeg'' \<and>
   map lowerByte ''.GIF'' = ''.gif'' \<and>
   GetExtensionFromURL unixPlatform (''https://example.com/image'' @ ''.GIF'') = ''.gif'' \<and>
   CHR ''.'' \<notin> set ''image'' \<and> GetExtensionFromURL unixPlatform ''image'' = [] \<and>
   ToLower (mapUnicodeLower unixPlatform)
       (spec_extension (spec_lastSegment (goos unixPlatform) ''https://example.com/image.txt''))
     \<notin> {''.jpg'', ''.jpeg'', ''.png'', ''.gif'', ''.webp'', ''.bmp'', ''.tiff'', ''.tif''} \<and>
   GetExtensionFromURL unixPlatform ''https://example.com/image.txt'' = []"
proof -
  have v: "GetExtensionFromURL unixPlatform ''https://example.com/image.PNG'' = ''.png''"
    by code_simp
  have d: "CHR ''.'' \<notin> set ''image''"
    by simp
  have u: "ToLower (mapUnicodeLower unixPlatform)
       (spec_extension (spec_lastSegment (goos unixPlatform) ''https://example.com/image.txt''))
     \<notin> {''.jpg'', ''.jpeg'', ''.png'', ''.gif'', ''.webp'', ''.bmp'', ''.tiff'', ''.tif''}"
    by code_simp
  have n: "GetExtensionFromURL unixPlatform ''https://example.com/image.PNG'' \<noteq> []"
    using v by simp
  have l1: "map lowerByte ''.jpg'' = ''.jpg''" and l2: "map lowerByte ''.Jpeg'' = ''.jpeg''"
    and l3: "map lowerByte ''.GIF'' = ''.gif''"
    by code_simp+
  have m1: "map lowerByte ''.jpg''
      \<in> {''.jpg'', ''.jpeg'', ''.png'', ''.gif'', ''.webp'', ''.bmp'', ''.tiff'', ''.tif''}"
    and m2: "map lowerByte ''.Jpeg''
      \<in> {''.jpg'', ''.jpeg'', ''.png'', ''.gif'', ''.webp'', ''.bmp'', ''.tiff'', ''.tif''}"
    and m3: "map lowerByte ''.GIF''
      \<in> {''.jpg'', ''.jpeg'', ''.png'', ''.gif'', ''.webp'', ''.bmp'', ''.tiff'', ''.tif''}"
    unfolding l1 l2 l3 by simp_all
  note any_case = GetExtensionFromURL_spec [of unixPlatform "[]" "''https://example.com/image''",
      THEN conjunct2, THEN conjunct2, THEN conjunct2, THEN conjunct2, THEN conjunct1, rule_format]
  note no_dot = GetExtensionFromURL_spec [of unixPlatform "''image''" "[]",
      THEN conjunct2, THEN conjunct2, THEN conjunct2, THEN conjunct2, THEN conjunct2,
      THEN conjunct1]
  note unknown = GetExtensionFromURL_spec [of unixPlatform "''https://example.com/image.txt''" "[]",
      THEN conjunct2, THEN conjunct2, THEN conjunct2, THEN conjunct2, THEN conjunct2,
      THEN conjunct2]
  have p1: "GetExtensionFromURL unixPlatform (''https://example.com/image'' @ ''.jpg'') = ''.jpg''"
    using any_case [OF m1] by (simp only: l1)
  have p2: "GetExtensionFromURL unixPlatform (''https://example.com/image'' @ ''.Jpeg'') = ''.jpeg''"
    using any_case [OF m2] by (simp only: l2)
  have p3: "GetExtensionFromURL unixPlatform (''https://example.com/image'' @ ''.GIF'') = ''.gif''"
    using any_case [OF m3] by (simp only: l3)
  from no_dot d have c2: "GetExtensionFromURL unixPlatform ''image'' = []"
    by (rule mp)
  from unknown u have c3: "GetExtensionFromURL unixPlatform ''https://example.com/image.txt'' = []"
    by (rule mp)
  from n v l1 p1 l2 p2 l3 p3 d c2 u c3 show ?thesis
    by (intro conjI)
qed

section \<open>Properties of \<open>DownloadImage\<close>\<close>

lemma DownloadImage_ok:
  assumes "client_Get env url = Inr resp" and "StatusCode resp = 200"
  shows "DownloadImage pf env url downloadDir num fs =
     spec_saveAs pf env downloadDir num
       (if getExtensionFromContentType (Header_Get resp ''Content-Type'') = []
        then (if GetExtensionFromURL pf url = [] then ''.jpg'' else GetExtensionFromURL pf url)
        else getExtensionFromContentType (Header_Get resp ''Content-Type'')) resp fs"
  unfolding DownloadImage_def spec_saveAs_def
  by (simp add: assms Let_def split: option.splits)

text \<open>
  Claim C1. On a response with status 200, \<open>DownloadImage\<close> names the file by three
  tiers: the extension of the content type when that is non-empty; otherwise the
  extension of the URL when that is non-empty; otherwise \<open>.jpg\<close>. (The witness runs the
  three tiers: content type \<open>image/png\<close> with a URL ending in \<open>.jpg\<close> gives
  \<open>image_1.png\<close>, and an unknown content type with a URL without extension gives
  \<open>image_3.jpg\<close>.)
\<close>

theorem DownloadImage_extension_priority:
  assumes "client_Get env url = Inr resp" and "StatusCode resp = 200"
  shows
    "(getExtensionFromContentType (Header_Get resp ''Content-Type'') \<noteq> [] \<longrightarrow>
        DownloadImage pf env url downloadDir num fs =
          spec_saveAs pf env downloadDir num
            (getExtensionFromContentType (Header_Get resp ''Content-Type'')) resp fs) \<and>
     (getExtensionFromContentType (Header_Get resp ''Content-Type'') = [] \<and>
      GetExtensionFromURL pf url \<noteq> [] \<longrightarrow>
        DownloadImage pf env url downloadDir num fs =
          spec_saveAs pf env downloadDir num (GetExtensionFromURL pf url) resp fs) \<and>
     (getExtensionFromContentType (Header_Get resp ''Content-Type'') = [] \<and>
      GetExtensionFromURL pf url = [] \<longrightarrow>
        DownloadImage pf env url downloadDir num fs =
          spec_saveAs pf env downloadDir num ''.jpg'' resp fs)"
  by (simp add: DownloadImage_ok [OF assms])

theorem DownloadImage_extension_priority_witness:
  "client_Get exampleEnv ''https://example.com/a.jpg'' = Inr (exampleResponse 200 ''image/png'') \<and>
   StatusCode (exampleResponse 200 ''image/png'') = 200 \<and>
   getExtensionFromContentType (Header_Get (exampleResponse 200 ''image/png'') ''Content-Type'') = ''.png'' \<and>
   GetExtensionFromURL unixPlatform ''https://example.com/a.jpg'' = ''.jpg'' \<and>
   DownloadImage unixPlatform exampleEnv ''https://example.com/a.jpg'' ''downloads'' 1 Map.empty =
     (None, [''downloads/image_1.png'' \<mapsto> ''data'']) \<and>
   client_Get exampleEnv ''https://example.com/b.GIF'' = Inr (exampleResponse 200 ''text/html'') \<and>
   getExtensionFromContentType (Header_Get (exampleResponse 200 ''text/html'') ''Content-Type'') = [] \<and>
   GetExtensionFromURL unixPlatform ''https://example.com/b.GIF'' = ''.gif'' \<and>
   DownloadImage unixPlatform exampleEnv ''https://example.com/b.GIF'' ''downloads'' 2 Map.empty =
     (None, [''downloads/image_2.gif'' \<mapsto> ''data'']) \<and>
   client_Get exampleEnv ''https://example.com/c'' = Inr (exampleResponse 200 ''text/html'') \<and>
   GetExtensionFromURL unixPlatform ''https://example.com/c'' = [] \<and>
   DownloadImage unixPlatform exampleEnv ''https://example.com/c'' ''downloads'' 3 Map.empty =
     (None, [''downloads/image_3.jpg'' \<mapsto> ''data''])"
proof -
  have g1: "client_Get exampleEnv ''https://example.com/a.jpg'' = Inr (exampleResponse 200 ''image/png'')"
    and g2: "client_Get exampleEnv ''https://example.com/b.GIF'' = Inr (exampleResponse 200 ''text/html'')"
    and g3: "client_Get exampleEnv ''https://example.com/c'' = Inr (exampleResponse 200 ''text/html'')"
    by (simp_all add: exampleEnv_def)
  have ok: "StatusCode (exampleResponse 200 ct) = 200" for ct
    by (simp add: exampleResponse_def)
  have h1: "getExtensionFromContentType (Header_Get (exampleResponse 200 ''image/png'') ''Content-Type'') = ''.png''"
    and h2: "getExtensionFromContentType (Header_Get (exampleResponse 200 ''text/html'') ''Content-Type'') = []"
    by code_simp+
  have u1: "GetExtensionFromURL unixPlatform ''https://example.com/a.jpg'' = ''.jpg''"
    and u2: "GetExtensionFromURL unixPlatform ''https://example.com/b.GIF'' = ''.gif''"
    and u3: "GetExtensionFromURL unixPlatform ''https://example.com/c'' = []"
    by code_simp+
  have p1: "Join unixPlatform ''downloads'' (''image_'' @ Sprint_d 1 @ ''.png'') = ''downloads/image_1.png''"
    and p2: "Join unixPlatform ''downloads'' (''image_'' @ Sprint_d 2 @ ''.gif'') = ''downloads/image_2.gif''"
    and p3: "Join unixPlatform ''downloads'' (''image_'' @ Sprint_d 3 @ ''.jpg'') = ''downloads/image_3.jpg''"
    by code_simp+
  have s: "spec_saveAs unixPlatform exampleEnv dir n e (exampleResponse 200 ct) Map.empty =
      (None, [Join unixPlatform dir (''image_'' @ Sprint_d n @ e) \<mapsto> ''data''])" for dir n e ct
    by (simp add: spec_saveAs_def exampleEnv_def exampleResponse_def Let_def)
  have d1: "DownloadImage unixPlatform exampleEnv ''https://example.com/a.jpg'' ''downloads'' 1 Map.empty =
     (None, [''downloads/image_1.png'' \<mapsto> ''data''])"
    using DownloadImage_extension_priority [OF g1 ok, of unixPlatform "''downloads''" 1 Map.empty]
    by (simp only: h1 s p1 list.distinct simp_thms)
  have d2: "DownloadImage unixPlatform exampleEnv ''https://example.com/b.GIF'' ''downloads'' 2 Map.empty =
     (None, [''downloads/image_2.gif'' \<mapsto> ''data''])"
    using DownloadImage_extension_priority [OF g2 ok, of unixPlatform "''downloads''" 2 Map.empty]
    by (simp only: h2 u2 s p2 list.distinct simp_thms)
  have d3: "DownloadImage unixPlatform exampleEnv ''https://example.com/c'' ''downloads'' 3 Map.empty =
     (None, [''downloads/image_3.jpg'' \<mapsto> ''data''])"
    using DownloadImage_extension_priority [OF g3 ok, of unixPlatform "''downloads''" 3 Map.empty]
    by (simp only: h2 u3 s p3 list.distinct simp_thms)
  from g1 ok [of "''image/png''"] h1 u1 d1 g2 h2 u2 d2 g3 u3 d3 show ?thesis
    by (intro conjI)
qed

text \<open>
  Claim C8. When the GET fails, or answers with a status other than 200, \<open>DownloadImage\<close>
  returns an error and leaves the files as they were: no file is created.
\<close>

theorem DownloadImage_failure_no_file:
  "(client_Get env url = Inl err \<longrightarrow>
      DownloadImage pf env url downloadDir num fs = (Some (HTTPRequestFailed err), fs)) \<and>
   (client_Get env url = Inr resp \<and> StatusCode resp \<noteq> 200 \<longrightarrow>
      DownloadImage pf env url downloadDir num fs = (Some (HTTPStatus (StatusCode resp)), fs))"
  by (simp add: DownloadImage_def)

theorem DownloadImage_failure_no_file_witness:
  "client_Get exampleEnv ''https://nowhere.invalid/x.png'' = Inl ''no such host'' \<and>
   DownloadImage unixPlatform exampleEnv ''https://nowhere.invalid/x.png'' ''downloads'' 1
       [''downloads/keep.txt'' \<mapsto> ''kept''] =
     (Some (HTTPRequestFailed ''no such host''), [''downloads/keep.txt'' \<mapsto> ''kept'']) \<and>
   client_Get exampleEnv ''https://example.com/missing'' = Inr (exampleResponse 404 ''image/png'') \<and>
   StatusCode (exampleResponse 404 ''image/png'') \<noteq> 200 \<and>
   DownloadImage unixPlatform exampleEnv ''https://example.com/missing'' ''downloads'' 2
       [''downloads/keep.txt'' \<mapsto> ''kept''] =
     (Some (HTTPStatus 404), [''downloads/keep.txt'' \<mapsto> ''kept''])"
proof -
  have g1: "client_Get exampleEnv ''https://nowhere.invalid/x.png'' = Inl ''no such host''"
    and g2: "client_Get exampleEnv ''https://example.com/missing'' = Inr (exampleResponse 404 ''image/png'')"
    by (simp_all add: exampleEnv_def)
  have st: "StatusCode (exampleResponse 404 ''image/png'') = 404"
    by (simp add: exampleResponse_def)
  then have ne: "StatusCode (exampleResponse 404 ''image/png'') \<noteq> 200"
    by simp
  note a = DownloadImage_failure_no_file [where env = exampleEnv
      and url = "''https://nowhere.invalid/x.png''" and err = "''no such host''"
      and pf = unixPlatform and downloadDir = "''downloads''" and num = 1
      and fs = "[''downloads/keep.txt'' \<mapsto> ''kept'']",
      THEN conjunct1]
  note b = DownloadImage_failure_no_file [where env = exampleEnv
      and url = "''https://example.com/missing''" and resp = "exampleResponse 404 ''image/png''"
      and pf = unixPlatform and downloadDir = "''downloads''" and num = 2
      and fs = "[''downloads/keep.txt'' \<mapsto> ''kept'']",
      THEN conjunct2]
  from a g1 have d1: "DownloadImage unixPlatform exampleEnv ''https://nowhere.invalid/x.png'' ''downloads'' 1
       [''downloads/keep.txt'' \<mapsto> ''kept''] =
     (Some (HTTPRequestFailed ''no such host''), [''downloads/keep.txt'' \<mapsto> ''kept''])"
    by (rule mp)
  from b g2 ne have d2: "DownloadImage unixPlatform exampleEnv ''https://example.com/missing'' ''downloads'' 2
       [''downloads/keep.txt'' \<mapsto> ''kept''] =
     (Some (HTTPStatus 404), [''downloads/keep.txt'' \<mapsto> ''kept''])"
    unfolding st by blast
  from g1 d1 g2 ne d2 show ?thesis
    by (intro conjI)
qed

section \<open>Properties of \<open>ProcessCSV\<close>\<close>

subsection \<open>One row\<close>

lemma index_in_range:
  "1 \<le> i \<Longrightarrow> \<not> int (length xs) < i \<Longrightarrow> index xs (i - 1) = Inr (xs ! nat (i - 1))"
  by (simp add: index_def)

lemma index_out_of_range: "i \<le> 0 \<Longrightarrow> index xs (i - 1) = Inl (IndexOutOfRange (i - 1) (length xs))"
  by (simp add: index_def)

lemma index_short: "int (length xs) < i \<Longrightarrow> index xs (i - 1) = Inl (IndexOutOfRange (i - 1) (length xs))"
  by (simp add: index_def)

lemma processRow_skip_short:
  "int (length row) < idx \<Longrightarrow>
   processRow idx f row st = Inr (incRowNum (incErrorCount (incTotalRows st)))"
  by (simp add: processRow_def Let_def)

lemma processRow_skip_empty:
  "\<not> int (length row) < idx \<Longrightarrow> index row (idx - 1) = Inr cell \<Longrightarrow> TrimSpace cell = [] \<Longrightarrow>
   processRow idx f row st = Inr (incRowNum (incErrorCount (incTotalRows st)))"
  by (simp add: processRow_def Let_def)

lemma processRow_call:
  "\<not> int (length row) < idx \<Longrightarrow> index row (idx - 1) = Inr cell \<Longrightarrow> TrimSpace cell \<noteq> [] \<Longrightarrow>
   f (TrimSpace cell) (rowNum st) (world st) = (err, w) \<Longrightarrow>
   processRow idx f row st =
     Inr (incRowNum ((if err \<noteq> None then incErrorCount else incSuccessCount)
       ((incTotalRows st)\<lparr>calls := calls st @ [(TrimSpace cell, rowNum st)], world := w\<rparr>)))"
  by (simp add: processRow_def Let_def incTotalRows_def)

lemma processRow_panic:
  "\<not> int (length row) < idx \<Longrightarrow> index row (idx - 1) = Inl p \<Longrightarrow>
   processRow idx f row st = Inl (p, incTotalRows st)"
  by (simp add: processRow_def Let_def)

lemma inc_fields [simp]:
  "result (incRowNum st) = result st" "calls (incRowNum st) = calls st"
  "world (incRowNum st) = world st" "rowNum (incRowNum st) = rowNum st + 1"
  "rowNum (incErrorCount st) = rowNum st" "calls (incErrorCount st) = calls st"
  "world (incErrorCount st) = world st"
  "rowNum (incSuccessCount st) = rowNum st" "calls (incSuccessCount st) = calls st"
  "world (incSuccessCount st) = world st"
  "rowNum (incTotalRows st) = rowNum st" "calls (incTotalRows st) = calls st"
  "world (incTotalRows st) = world st"
  "TotalRows (result (incTotalRows st)) = TotalRows (result st) + 1"
  "SuccessCount (result (incTotalRows st)) = SuccessCount (result st)"
  "ErrorCount (result (incTotalRows st)) = ErrorCount (result st)"
  "TotalRows (result (incErrorCount st)) = TotalRows (result st)"
  "SuccessCount (result (incErrorCount st)) = SuccessCount (result st)"
  "ErrorCount (result (incErrorCount st)) = ErrorCount (result st) + 1"
  "TotalRows (result (incSuccessCount st)) = TotalRows (result st)"
  "SuccessCount (result (incSuccessCount st)) = SuccessCount (result st) + 1"
  "ErrorCount (result (incSuccessCount st)) = ErrorCount (result st)"
  by (simp_all add: incRowNum_def incErrorCount_def incSuccessCount_def incTotalRows_def)

text \<open>A row is skipped for its length, or its column read panics, or it is skipped for an
  empty cell, or the callback is invoked.\<close>

lemma processRow_outcomes:
  obtains (short) "int (length row) < idx"
      "processRow idx f row st = Inr (incRowNum (incErrorCount (incTotalRows st)))"
  | (panic) p where "\<not> int (length row) < idx" "index row (idx - 1) = Inl p"
      "processRow idx f row st = Inl (p, incTotalRows st)"
  | (empty) cell where "\<not> int (length row) < idx" "index row (idx - 1) = Inr cell"
      "TrimSpace cell = []"
      "processRow idx f row st = Inr (incRowNum (incErrorCount (incTotalRows st)))"
  | (call) cell err w where "\<not> int (length row) < idx" "index row (idx - 1) = Inr cell"
      "TrimSpace cell \<noteq> []" "f (TrimSpace cell) (rowNum st) (world st) = (err, w)"
      "processRow idx f row st =
         Inr (incRowNum ((if err \<noteq> None then incErrorCount else incSuccessCount)
           ((incTotalRows st)\<lparr>calls := calls st @ [(TrimSpace cell, rowNum st)], world := w\<rparr>)))"
proof (cases "int (length row) < idx")
  case True
  show ?thesis
    by (rule short [OF True processRow_skip_short [OF True]])
next
  case long: False
  show ?thesis
  proof (cases "index row (idx - 1)")
    case (Inl p)
    show ?thesis
      by (rule panic [OF long Inl processRow_panic [OF long Inl]])
  next
    case (Inr cell)
    show ?thesis
    proof (cases "TrimSpace cell = []")
      case True
      show ?thesis
        by (rule empty [OF long Inr True processRow_skip_empty [OF long Inr True]])
    next
      case False
      obtain err w where c: "f (TrimSpace cell) (rowNum st) (world st) = (err, w)"
        by (cases "f (TrimSpace cell) (rowNum st) (world st)")
      note r = processRow_call [where f = f and st = st, OF long Inr False c]
      show ?thesis
        by (rule call [OF long Inr False c r])
    qed
  qed
qed

subsection \<open>The loop\<close>

lemma processRow_no_panic:
  assumes "1 \<le> idx"
  shows "\<exists>st'. processRow idx f row st = Inr st'"
proof (cases rule: processRow_outcomes [of row idx f st])
  case (panic p)
  with assms show ?thesis by (simp add: index_def split: if_splits)
qed auto

lemma readLoop_no_panic:
  assumes "1 \<le> idx"
  shows "\<exists>st'. readLoop idx f reads st = Inr st'"
proof (induction reads arbitrary: st)
  case Nil
  show ?case by simp
next
  case (Cons r reads)
  show ?case
  proof (cases r)
    case (Record row)
    obtain st1 where "processRow idx f row st = Inr st1"
      using processRow_no_panic [OF assms] by blast
    with Record Cons.IH [of st1] show ?thesis by simp
  next
    case (ReadErr e)
    then show ?thesis by simp
  qed
qed

lemma processRow_counts:
  assumes "processRow idx f row st = Inr st'"
  shows "TotalRows (result st') = TotalRows (result st) + 1"
    and "SuccessCount (result st') + ErrorCount (result st') =
         SuccessCount (result st) + ErrorCount (result st) + 1"
    and "rowNum st' = rowNum st + 1"
  using assms
  by (cases rule: processRow_outcomes [of row idx f st]; auto)+

lemma readLoop_counts:
  "readLoop idx f reads st = Inr st' \<Longrightarrow>
   TotalRows (result st') = TotalRows (result st) + int (length (recordsRead reads)) \<and>
   SuccessCount (result st') + ErrorCount (result st') =
     SuccessCount (result st) + ErrorCount (result st) + int (length (recordsRead reads)) \<and>
   rowNum st' = rowNum st + int (length (recordsRead reads))"
proof (induction reads arbitrary: st)
  case Nil
  then show ?case by simp
next
  case (Cons r reads)
  show ?case
  proof (cases r)
    case (Record row)
    with Cons.prems obtain st1 where 1: "processRow idx f row st = Inr st1"
      and 2: "readLoop idx f reads st1 = Inr st'"
      by (auto split: sum.splits)
    from Cons.IH [OF 2] processRow_counts [OF 1] Record show ?thesis by simp
  next
    case (ReadErr e)
    with Cons.prems show ?thesis by simp
  qed
qed

lemma numberedFrom_Nil: "numberedFrom k [] = []"
  by (simp add: numberedFrom_def)

lemma numberedFrom_Cons: "numberedFrom k (row # rows) = (k, row) # numberedFrom (k + 1) rows"
proof -
  have "map (\<lambda>i. k + int i) [0..<Suc (length rows)] =
      k # map (\<lambda>i. k + 1 + int i) [0..<length rows]"
    by (simp add: upt_conv_Cons map_Suc_upt [symmetric] del: upt_Suc)
  then show ?thesis by (simp add: numberedFrom_def)
qed

lemma numberedFrom_nth:
  "i < length rows \<Longrightarrow> numberedFrom k rows ! i = (k + int i, rows ! i)"
  by (simp add: numberedFrom_def)

lemma processRow_calls:
  assumes "processRow idx f row st = Inr st'"
  shows "calls st' = calls st @ List.map_filter (spec_call idx) [(rowNum st, row)]"
  using assms
  by (cases rule: processRow_outcomes [of row idx f st])
     (auto simp: spec_call_def index_short)

lemma readLoop_calls:
  "readLoop idx f reads st = Inr st' \<Longrightarrow>
   calls st' = calls st @ List.map_filter (spec_call idx) (numberedFrom (rowNum st) (recordsRead reads))"
proof (induction reads arbitrary: st)
  case Nil
  then show ?case by (simp add: numberedFrom_Nil)
next
  case (Cons r reads)
  show ?case
  proof (cases r)
    case (Record row)
    with Cons.prems obtain st1 where 1: "processRow idx f row st = Inr st1"
      and 2: "readLoop idx f reads st1 = Inr st'"
      by (auto split: sum.splits)
    from Cons.IH [OF 2] processRow_calls [OF 1] processRow_counts(3) [OF 1] Record
    show ?thesis by (simp add: numberedFrom_Cons split: option.splits)
  next
    case (ReadErr e)
    with Cons.prems show ?thesis by (simp add: numberedFrom_Nil)
  qed
qed

lemma readLoop_panic:
  assumes "idx \<le> 0"
  shows "readLoop idx f (Record row # reads) st =
     Inl (IndexOutOfRange (idx - 1) (length row), incTotalRows st)"
proof -
  from assms have "\<not> int (length row) < idx" by simp
  from processRow_panic [where f = f and st = st, OF this index_out_of_range [OF assms]]
  show ?thesis by simp
qed

lemma spec_call_nonpositive: "idx \<le> 0 \<Longrightarrow> spec_call idx x = None"
  by (simp add: spec_call_def index_out_of_range)

lemma spec_calls_nonpositive: "idx \<le> 0 \<Longrightarrow> List.map_filter (spec_call idx) xs = []"
  by (induction xs) (simp_all add: spec_call_nonpositive)

lemma readLoop_truncated: "readLoop idx f reads st = readLoop idx f (map Record (recordsRead reads)) st"
proof (induction reads arbitrary: st)
  case Nil
  show ?case by simp
next
  case (Cons r reads)
  then show ?case by (cases r) (simp_all split: sum.splits)
qed

lemma recordsRead_map_Record: "recordsRead (map Record rows) = rows"
  by (induction rows) simp_all

lemma ProcessCSV_loop:
  assumes "os_Open csvFile = Inr (Record header # rest)"
    and "\<not> int (length header) < urlColumnIndex"
  shows "ProcessCSV os_Open csvFile urlColumnIndex downloadFunc w =
     (case readLoop urlColumnIndex downloadFunc rest (initial w) of
        Inl (p, st) \<Rightarrow> Run (Inl p) (calls st) (world st)
      | Inr st \<Rightarrow> Run (Inr (Some (result st), None)) (calls st) (world st))"
  using assms by (simp add: ProcessCSV_def)

lemma ProcessCSV_failure:
  assumes "spec_structuralFailure os_Open csvFile urlColumnIndex"
  shows "\<exists>e. ProcessCSV os_Open csvFile urlColumnIndex downloadFunc w = Run (Inr (None, Some e)) [] w"
  using assms
  by (auto simp: spec_structuralFailure_def ProcessCSV_def split: sum.splits list.splits read_result.splits)

lemma ProcessCSV_no_failure:
  assumes "\<not> spec_structuralFailure os_Open csvFile urlColumnIndex"
  shows "\<exists>header rest. os_Open csvFile = Inr (Record header # rest) \<and>
      \<not> int (length header) < urlColumnIndex"
  using assms
  by (auto simp: spec_structuralFailure_def split: sum.splits list.splits read_result.splits)

lemma initial_fields [simp]:
  "result (initial w) = \<lparr>SuccessCount = 0, ErrorCount = 0, TotalRows = 0\<rparr>"
  "rowNum (initial w) = 1" "calls (initial w) = []" "world (initial w) = w"
  by (simp_all add: initial_def)

lemma ProcessCSV_invocations:
  assumes "os_Open csvFile = Inr (Record header # rest)"
    and "\<not> int (length header) < urlColumnIndex"
  shows "invocations (ProcessCSV os_Open csvFile urlColumnIndex downloadFunc w) =
     spec_calls urlColumnIndex (recordsRead rest)"
proof -
  note run = ProcessCSV_loop [where os_Open = os_Open and csvFile = csvFile
      and downloadFunc = downloadFunc and w = w, OF assms]
  show ?thesis
  proof (cases "readLoop urlColumnIndex downloadFunc rest (initial w)")
    case (Inr st)
    from readLoop_calls [OF Inr] show ?thesis
      by (simp add: run Inr spec_calls_def)
  next
    case (Inl ps)
    obtain p st where ps: "ps = (p, st)" by (cases ps)
    have nonpos: "urlColumnIndex \<le> 0"
    proof (rule ccontr)
      assume "\<not> urlColumnIndex \<le> 0"
      then have "1 \<le> urlColumnIndex" by simp
      from readLoop_no_panic [OF this, of downloadFunc rest "initial w"] Inl show False
        by simp
    qed
    from Inl obtain row reads where rest: "rest = Record row # reads"
      by (cases rest rule: recordsRead.cases) simp_all
    from readLoop_panic [OF nonpos, of downloadFunc row reads "initial w"] Inl ps rest
    have "st = incTotalRows (initial w)" by simp
    then have "calls st = []" by simp
    with spec_calls_nonpositive [OF nonpos] show ?thesis
      by (simp add: run Inl ps spec_calls_def)
  qed
qed

lemma exampleOpen_data: "exampleOpen ''data.csv'' = Inr (Record [''id'', ''url''] # exampleRows)"
  by (simp add: exampleOpen_def exampleRows_def)

lemma example_run:
  "outcome (ProcessCSV exampleOpen ''data.csv'' 2 exampleCallback Map.empty) =
     Inr (Some \<lparr>SuccessCount = 2, ErrorCount = 3, TotalRows = 5\<rparr>, None)"
  by code_simp

lemma example_calls:
  "spec_calls 2 (recordsRead exampleRows) =
     [(''https://example.com/a.jpg'', 1), (''https://example.com/missing'', 3),
      (''invalid-url'', 4), (''https://example.com/c'', 5)]"
  by code_simp

lemma example_panic:
  "outcome (ProcessCSV exampleOpen ''narrow.csv'' 0 exampleCallback Map.empty) =
     Inl (IndexOutOfRange (- 1) 1)"
  by code_simp

lemma processRow_blank_example:
  "processRow 2 exampleCallback [''2'', ''   ''] (initial Map.empty) =
     Inr \<lparr>result = \<lparr>SuccessCount = 0, ErrorCount = 1, TotalRows = 1\<rparr>,
          rowNum = 2, calls = [], world = Map.empty\<rparr>"
proof -
  have i: "index [''2'', ''   ''] (2 - 1) = Inr ''   ''"
    by (simp add: index_def)
  have t: "TrimSpace ''   '' = []"
    by code_simp
  have "processRow 2 exampleCallback [''2'', ''   ''] (initial Map.empty) =
      Inr (incRowNum (incErrorCount (incTotalRows (initial Map.empty))))"
    by (rule processRow_skip_empty [OF _ i t]) simp
  then show ?thesis
    by (simp add: initial_def incRowNum_def incErrorCount_def incTotalRows_def)
qed

subsection \<open>The rows of a file\<close>








subsection \<open>The counters\<close>

text \<open>
  Claim C4. Whenever \<open>ProcessCSV\<close> returns a result and no error, \<open>SuccessCount +
  ErrorCount = TotalRows\<close>, and \<open>TotalRows\<close> is the number of data records read after the
  header before the first read that gives end-of-input or an error.
\<close>

theorem ProcessCSV_counts:
  assumes "os_Open csvFile = Inr (Record header # rest)"
    and "outcome (ProcessCSV os_Open csvFile urlColumnIndex downloadFunc w) = Inr (Some r, None)"
  shows "SuccessCount r + ErrorCount r = TotalRows r \<and>
         TotalRows r = int (length (recordsRead rest))"
proof -
  have long: "\<not> int (length header) < urlColumnIndex"
    using assms by (auto simp: ProcessCSV_def split: if_splits)
  note run = ProcessCSV_loop [where os_Open = os_Open and csvFile = csvFile
      and downloadFunc = downloadFunc and w = w, OF assms(1) long]
  from assms(2) obtain st where loop: "readLoop urlColumnIndex downloadFunc rest (initial w) = Inr st"
    and r: "r = result st"
    unfolding run by (auto split: sum.splits)
  from readLoop_counts [OF loop] r show ?thesis by simp
qed

theorem ProcessCSV_counts_witness:
  "exampleOpen ''data.csv'' = Inr (Record [''id'', ''url''] # exampleRows) \<and>
   outcome (ProcessCSV exampleOpen ''data.csv'' 2 exampleCallback Map.empty) =
     Inr (Some \<lparr>SuccessCount = 2, ErrorCount = 3, TotalRows = 5\<rparr>, None) \<and>
   SuccessCount \<lparr>SuccessCount = 2, ErrorCount = 3, TotalRows = 5\<rparr> +
     ErrorCount \<lparr>SuccessCount = 2, ErrorCount = 3, TotalRows = 5\<rparr> =
     TotalRows \<lparr>SuccessCount = 2, ErrorCount = 3, TotalRows = 5\<rparr> \<and>
   TotalRows \<lparr>SuccessCount = 2, ErrorCount = 3, TotalRows = 5\<rparr> =
     int (length (recordsRead exampleRows))"
  using ProcessCSV_counts [OF exampleOpen_data example_run] exampleOpen_data example_run
  by (intro conjI) blast+

subsection \<open>What is returned\<close>

text \<open>
  Claim C5, as the code has it. If \<open>urlColumnIndex\<close> is at least 1, the file opens and
  its header has at least \<open>urlColumnIndex\<close> columns, then \<open>ProcessCSV\<close> returns a result
  and no error, however many rows fail. An error from reading a data record only ends
  the loop: the run is the run on the file cut before that read.
\<close>

theorem ProcessCSV_returns_result:
  assumes "os_Open csvFile = Inr (Record header # rest)"
    and "\<not> int (length header) < urlColumnIndex"
    and "1 \<le> urlColumnIndex"
  shows "(\<exists>r. outcome (ProcessCSV os_Open csvFile urlColumnIndex downloadFunc w) = Inr (Some r, None)) \<and>
     ProcessCSV os_Open csvFile urlColumnIndex downloadFunc w =
       ProcessCSV (\<lambda>name. Inr (Record header # map Record (recordsRead rest)))
         csvFile urlColumnIndex downloadFunc w"
proof -
  note run = ProcessCSV_loop [where os_Open = os_Open and csvFile = csvFile
      and downloadFunc = downloadFunc and w = w, OF assms(1,2)]
  note cut = ProcessCSV_loop [where os_Open = "\<lambda>name. Inr (Record header # map Record (recordsRead rest))"
      and csvFile = csvFile and downloadFunc = downloadFunc and w = w, OF refl assms(2)]
  obtain st where "readLoop urlColumnIndex downloadFunc rest (initial w) = Inr st"
    using readLoop_no_panic [OF assms(3)] by blast
  then have 1: "\<exists>r. outcome (ProcessCSV os_Open csvFile urlColumnIndex downloadFunc w) = Inr (Some r, None)"
    by (simp add: run)
  have 2: "ProcessCSV os_Open csvFile urlColumnIndex downloadFunc w =
       ProcessCSV (\<lambda>name. Inr (Record header # map Record (recordsRead rest)))
         csvFile urlColumnIndex downloadFunc w"
    using readLoop_truncated [of urlColumnIndex downloadFunc rest "initial w"]
    by (simp add: run cut recordsRead_map_Record)
  from 1 2 show ?thesis by (rule conjI)
qed

theorem ProcessCSV_returns_result_witness:
  "exampleOpen ''data.csv'' = Inr (Record [''id'', ''url''] # exampleRows) \<and>
   \<not> int (length [''id'', ''url'']) < 2 \<and> (1::int) \<le> 2 \<and>
   outcome (ProcessCSV exampleOpen ''data.csv'' 2 exampleCallback Map.empty) =
     Inr (Some \<lparr>SuccessCount = 2, ErrorCount = 3, TotalRows = 5\<rparr>, None) \<and>
   recordsRead exampleRows =
     [[''1'', '' https://example.com/a.jpg ''], [''2'', ''   ''],
      [''3'', ''https://example.com/missing''], [''4'', ''invalid-url''],
      [''5'', ''https://example.com/c'']] \<and>
   ProcessCSV exampleOpen ''data.csv'' 2 exampleCallback Map.empty =
     ProcessCSV (\<lambda>name. Inr (Record [''id'', ''url''] # map Record (recordsRead exampleRows)))
       ''data.csv'' 2 exampleCallback Map.empty"
proof -
  have long: "\<not> int (length [''id'', ''url'']) < 2"
    by simp
  have pos: "(1::int) \<le> 2"
    by simp
  have rows: "recordsRead exampleRows =
     [[''1'', '' https://example.com/a.jpg ''], [''2'', ''   ''],
      [''3'', ''https://example.com/missing''], [''4'', ''invalid-url''],
      [''5'', ''https://example.com/c'']]"
    by code_simp
  note cut = ProcessCSV_returns_result [where os_Open = exampleOpen and csvFile = "''data.csv''"
      and downloadFunc = exampleCallback and w = Map.empty,
      OF exampleOpen_data long pos, THEN conjunct2]
  from exampleOpen_data long pos example_run rows cut show ?thesis
    by (intro conjI)
qed

text \<open>
  The claim as written has no lower bound on \<open>urlColumnIndex\<close>. With the index 0, a
  header of one column has at least 0 columns, and the first data record makes the read
  of column \<open>-1\<close> panic: \<open>ProcessCSV\<close> returns nothing.
\<close>

theorem ProcessCSV_panic_counterexample:
  "exampleOpen ''narrow.csv'' = Inr [Record [''id''], Record [''1'']] \<and>
   \<not> int (length [''id'']) < 0 \<and>
   outcome (ProcessCSV exampleOpen ''narrow.csv'' 0 exampleCallback Map.empty) =
     Inl (IndexOutOfRange (- 1) 1)"
proof -
  have o: "exampleOpen ''narrow.csv'' = Inr [Record [''id''], Record [''1'']]"
    by (simp add: exampleOpen_def)
  have l: "\<not> int (length [''id'']) < 0"
    by simp
  from o l example_panic show ?thesis
    by (intro conjI)
qed

text \<open>
  Claim C6. \<open>ProcessCSV\<close> returns an error and no result exactly when the file cannot be
  opened, the header cannot be read, or the header has fewer than \<open>urlColumnIndex\<close>
  columns; then the callback was never invoked and the world is as before.
\<close>

theorem ProcessCSV_structural_failure:
  "((\<exists>e. outcome (ProcessCSV os_Open csvFile urlColumnIndex downloadFunc w) = Inr (None, Some e))
      \<longleftrightarrow> spec_structuralFailure os_Open csvFile urlColumnIndex) \<and>
   (spec_structuralFailure os_Open csvFile urlColumnIndex \<longrightarrow>
      invocations (ProcessCSV os_Open csvFile urlColumnIndex downloadFunc w) = [] \<and>
      after (ProcessCSV os_Open csvFile urlColumnIndex downloadFunc w) = w)"
proof (intro conjI iffI impI)
  assume "spec_structuralFailure os_Open csvFile urlColumnIndex"
  from ProcessCSV_failure [OF this, of downloadFunc w]
  show "\<exists>e. outcome (ProcessCSV os_Open csvFile urlColumnIndex downloadFunc w) = Inr (None, Some e)"
    by auto
next
  assume e: "\<exists>e. outcome (ProcessCSV os_Open csvFile urlColumnIndex downloadFunc w) = Inr (None, Some e)"
  show "spec_structuralFailure os_Open csvFile urlColumnIndex"
  proof (rule ccontr)
    assume "\<not> spec_structuralFailure os_Open csvFile urlColumnIndex"
    from ProcessCSV_no_failure [OF this] obtain header rest
      where h: "os_Open csvFile = Inr (Record header # rest)" "\<not> int (length header) < urlColumnIndex"
      by blast
    note run = ProcessCSV_loop [where os_Open = os_Open and csvFile = csvFile
        and downloadFunc = downloadFunc and w = w, OF h]
    from e show False
      unfolding run by (auto split: sum.splits)
  qed
next
  assume "spec_structuralFailure os_Open csvFile urlColumnIndex"
  from ProcessCSV_failure [OF this, of downloadFunc w]
  show "invocations (ProcessCSV os_Open csvFile urlColumnIndex downloadFunc w) = []"
    by auto
next
  assume "spec_structuralFailure os_Open csvFile urlColumnIndex"
  from ProcessCSV_failure [OF this, of downloadFunc w]
  show "after (ProcessCSV os_Open csvFile urlColumnIndex downloadFunc w) = w"
    by auto
qed

theorem ProcessCSV_structural_failure_witness:
  "spec_structuralFailure exampleOpen ''missing.csv'' 1 \<and>
   outcome (ProcessCSV exampleOpen ''missing.csv'' 1 exampleCallback Map.empty) =
     Inr (None, Some (OpenFailed ''no such file or directory'')) \<and>
   invocations (ProcessCSV exampleOpen ''missing.csv'' 1 exampleCallback Map.empty) = [] \<and>
   after (ProcessCSV exampleOpen ''missing.csv'' 1 exampleCallback Map.empty) = Map.empty \<and>
   spec_structuralFailure exampleOpen ''empty.csv'' 1 \<and>
   outcome (ProcessCSV exampleOpen ''empty.csv'' 1 exampleCallback Map.empty) =
     Inr (None, Some (HeaderReadFailed ''EOF'')) \<and>
   spec_structuralFailure exampleOpen ''broken.csv'' 1 \<and>
   outcome (ProcessCSV exampleOpen ''broken.csv'' 1 exampleCallback Map.empty) =
     Inr (None, Some (HeaderReadFailed ''parse error on line 1'')) \<and>
   spec_structuralFailure exampleOpen ''narrow.csv'' 2 \<and>
   outcome (ProcessCSV exampleOpen ''narrow.csv'' 2 exampleCallback Map.empty) =
     Inr (None, Some (HeaderTooShort 2 1)) \<and>
   invocations (ProcessCSV exampleOpen ''narrow.csv'' 2 exampleCallback Map.empty) = [] \<and>
   \<not> spec_structuralFailure exampleOpen ''data.csv'' 2 \<and>
   outcome (ProcessCSV exampleOpen ''data.csv'' 2 exampleCallback Map.empty) =
     Inr (Some \<lparr>SuccessCount = 2, ErrorCount = 3, TotalRows = 5\<rparr>, None)"
proof -
  have f1: "spec_structuralFailure exampleOpen ''missing.csv'' 1"
    and f2: "spec_structuralFailure exampleOpen ''empty.csv'' 1"
    and f3: "spec_structuralFailure exampleOpen ''broken.csv'' 1"
    and f4: "spec_structuralFailure exampleOpen ''narrow.csv'' 2"
    and f5: "\<not> spec_structuralFailure exampleOpen ''data.csv'' 2"
    by code_simp+
  have o1: "outcome (ProcessCSV exampleOpen ''missing.csv'' 1 exampleCallback Map.empty) =
     Inr (None, Some (OpenFailed ''no such file or directory''))"
    and o2: "outcome (ProcessCSV exampleOpen ''empty.csv'' 1 exampleCallback Map.empty) =
     Inr (None, Some (HeaderReadFailed ''EOF''))"
    and o3: "outcome (ProcessCSV exampleOpen ''broken.csv'' 1 exampleCallback Map.empty) =
     Inr (None, Some (HeaderReadFailed ''parse error on line 1''))"
    and o4: "outcome (ProcessCSV exampleOpen ''narrow.csv'' 2 exampleCallback Map.empty) =
     Inr (None, Some (HeaderTooShort 2 1))"
    by code_simp+
  note q1 = ProcessCSV_structural_failure [where os_Open = exampleOpen
      and csvFile = "''missing.csv''" and urlColumnIndex = 1 and downloadFunc = exampleCallback
      and w = Map.empty, THEN conjunct2, rule_format, OF f1]
  note q4 = ProcessCSV_structural_failure [where os_Open = exampleOpen
      and csvFile = "''narrow.csv''" and urlColumnIndex = 2 and downloadFunc = exampleCallback
      and w = Map.empty, THEN conjunct2, rule_format, OF f4]
  from f1 o1 q1 [THEN conjunct1] q1 [THEN conjunct2] f2 o2 f3 o3 f4 o4 q4 [THEN conjunct1]
    f5 example_run
  show ?thesis
    by (intro conjI)
qed

subsection \<open>Row numbers\<close>

lemma spec_world_Nil: "spec_world f w [] = w"
  by (simp add: spec_world_def)

lemma spec_world_append: "spec_world f w (xs @ ys) = spec_world f (spec_world f w xs) ys"
  by (simp add: spec_world_def)

lemma spec_world_single: "spec_world f w [(url, n)] = snd (f url n w)"
  by (simp add: spec_world_def)

lemma spec_world_recording:
  "spec_world (recording f) (logged, w) cs = (logged @ cs, spec_world f w cs)"
proof (induction cs arbitrary: logged w)
  case Nil
  show ?case by (simp add: spec_world_def)
next
  case (Cons c cs)
  obtain url n where c: "c = (url, n)" by (cases c)
  obtain err w' where f: "f url n w = (err, w')" by (cases "f url n w")
  have "spec_world (recording f) (logged, w) (c # cs) =
      spec_world (recording f) (logged @ [c], w') cs"
    by (simp add: spec_world_def recording_def c f)
  also have "\<dots> = ((logged @ [c]) @ cs, spec_world f w' cs)"
    by (rule Cons.IH)
  also have "spec_world f w' cs = spec_world f w (c # cs)"
    by (simp add: spec_world_def c f)
  finally show ?case by simp
qed

lemma processRow_world:
  assumes "processRow idx f row st = Inr st'"
  shows "world st' = spec_world f (world st) (List.map_filter (spec_call idx) [(rowNum st, row)])"
  using assms
  by (cases rule: processRow_outcomes [of row idx f st])
     (auto simp: spec_call_def index_short spec_world_def)

lemma readLoop_world:
  "readLoop idx f reads st = Inr st' \<Longrightarrow>
   world st' = spec_world f (world st)
     (List.map_filter (spec_call idx) (numberedFrom (rowNum st) (recordsRead reads)))"
proof (induction reads arbitrary: st)
  case Nil
  then show ?case by (simp add: numberedFrom_Nil spec_world_Nil)
next
  case (Cons r reads)
  show ?case
  proof (cases r)
    case (Record row)
    with Cons.prems obtain st1 where 1: "processRow idx f row st = Inr st1"
      and 2: "readLoop idx f reads st1 = Inr st'"
      by (auto split: sum.splits)
    let ?xs = "numberedFrom (rowNum st + 1) (recordsRead reads)"
    have split: "List.map_filter (spec_call idx) ((rowNum st, row) # ?xs) =
        List.map_filter (spec_call idx) [(rowNum st, row)] @ List.map_filter (spec_call idx) ?xs"
      by (simp split: option.splits)
    have "world st' = spec_world f (world st1) (List.map_filter (spec_call idx) ?xs)"
      using Cons.IH [OF 2] processRow_counts(3) [OF 1] by simp
    also have "world st1 =
        spec_world f (world st) (List.map_filter (spec_call idx) [(rowNum st, row)])"
      by (rule processRow_world [OF 1])
    finally have "world st' = spec_world f (world st)
        (List.map_filter (spec_call idx) ((rowNum st, row) # ?xs))"
      unfolding split spec_world_append .
    then show ?thesis
      by (simp only: Record recordsRead.simps numberedFrom_Cons)
  next
    case (ReadErr e)
    with Cons.prems show ?thesis by (simp add: numberedFrom_Nil spec_world_Nil)
  qed
qed

lemma ProcessCSV_world:
  assumes "os_Open csvFile = Inr (Record header # rest)"
    and "\<not> int (length header) < urlColumnIndex"
  shows "after (ProcessCSV os_Open csvFile urlColumnIndex downloadFunc w) =
     spec_world downloadFunc w (spec_calls urlColumnIndex (recordsRead rest))"
proof -
  note run = ProcessCSV_loop [where os_Open = os_Open and csvFile = csvFile
      and downloadFunc = downloadFunc and w = w, OF assms]
  show ?thesis
  proof (cases "readLoop urlColumnIndex downloadFunc rest (initial w)")
    case (Inr st)
    from readLoop_world [OF Inr] show ?thesis
      by (simp add: run Inr spec_calls_def)
  next
    case (Inl ps)
    obtain p st where ps: "ps = (p, st)" by (cases ps)
    have nonpos: "urlColumnIndex \<le> 0"
    proof (rule ccontr)
      assume "\<not> urlColumnIndex \<le> 0"
      then have "1 \<le> urlColumnIndex" by simp
      from readLoop_no_panic [OF this, of downloadFunc rest "initial w"] Inl show False
        by simp
    qed
    from Inl obtain row reads where rest: "rest = Record row # reads"
      by (cases rest rule: recordsRead.cases) simp_all
    from readLoop_panic [OF nonpos, of downloadFunc row reads "initial w"] Inl ps rest
    have "st = incTotalRows (initial w)" by simp
    then have "world st = w" by simp
    with spec_calls_nonpositive [OF nonpos] show ?thesis
      by (simp add: run Inl ps spec_calls_def spec_world_Nil)
  qed
qed

text \<open>
  Claim C7. The row number passed to the callback for the nth data record read after the
  header is n. The calls of a run are those of the records numbered from 1; the world the
  run leaves is the world after calling the callback with exactly these URLs and row
  numbers, in order; and a callback that keeps the list of its own arguments has seen
  exactly these. The counter starts at 1 and every iteration that ends adds 1 to it,
  whether the row was skipped for too few columns or an empty URL, or the callback
  failed or succeeded.
\<close>

theorem ProcessCSV_row_numbers:
  "(os_Open csvFile = Inr (Record header # rest) \<and> \<not> int (length header) < urlColumnIndex \<longrightarrow>
      invocations (ProcessCSV os_Open csvFile urlColumnIndex downloadFunc w) =
        spec_calls urlColumnIndex (recordsRead rest) \<and>
      after (ProcessCSV os_Open csvFile urlColumnIndex downloadFunc w) =
        spec_world downloadFunc w (spec_calls urlColumnIndex (recordsRead rest)) \<and>
      fst (after (ProcessCSV os_Open csvFile urlColumnIndex (recording downloadFunc) ([], w))) =
        spec_calls urlColumnIndex (recordsRead rest)) \<and>
   rowNum (initial w) = 1 \<and>
   (\<forall>st'. processRow urlColumnIndex downloadFunc row st = Inr st' \<longrightarrow> rowNum st' = rowNum st + 1)"
proof (intro conjI impI allI)
  assume a: "os_Open csvFile = Inr (Record header # rest) \<and> \<not> int (length header) < urlColumnIndex"
  then have o: "os_Open csvFile = Inr (Record header # rest)"
    and l: "\<not> int (length header) < urlColumnIndex"
    by simp_all
  show "invocations (ProcessCSV os_Open csvFile urlColumnIndex downloadFunc w) =
        spec_calls urlColumnIndex (recordsRead rest)"
    using o l by (rule ProcessCSV_invocations)
  show "after (ProcessCSV os_Open csvFile urlColumnIndex downloadFunc w) =
        spec_world downloadFunc w (spec_calls urlColumnIndex (recordsRead rest))"
    using o l by (rule ProcessCSV_world)
  have "after (ProcessCSV os_Open csvFile urlColumnIndex (recording downloadFunc) ([], w)) =
      spec_world (recording downloadFunc) ([], w) (spec_calls urlColumnIndex (recordsRead rest))"
    using o l by (rule ProcessCSV_world)
  then show "fst (after (ProcessCSV os_Open csvFile urlColumnIndex (recording downloadFunc) ([], w))) =
        spec_calls urlColumnIndex (recordsRead rest)"
    by (simp add: spec_world_recording)
next
  show "rowNum (initial w) = 1" by simp
next
  fix st'
  assume "processRow urlColumnIndex downloadFunc row st = Inr st'"
  then show "rowNum st' = rowNum st + 1" by (rule processRow_counts(3))
qed

theorem ProcessCSV_row_numbers_witness:
  "exampleOpen ''data.csv'' = Inr (Record [''id'', ''url''] # exampleRows) \<and>
   \<not> int (length [''id'', ''url'']) < 2 \<and>
   invocations (ProcessCSV exampleOpen ''data.csv'' 2 exampleCallback Map.empty) =
     [(''https://example.com/a.jpg'', 1), (''https://example.com/missing'', 3),
      (''invalid-url'', 4), (''https://example.com/c'', 5)] \<and>
   fst (after (ProcessCSV exampleOpen ''data.csv'' 2 (recording exampleCallback) ([], Map.empty))) =
     [(''https://example.com/a.jpg'', 1), (''https://example.com/missing'', 3),
      (''invalid-url'', 4), (''https://example.com/c'', 5)] \<and>
   after (ProcessCSV exampleOpen ''data.csv'' 2 exampleCallback Map.empty)
       ''downloads/image_5.jpg'' = Some ''data'' \<and>
   after (ProcessCSV exampleOpen ''data.csv'' 2 exampleCallback Map.empty)
       ''downloads/image_2.jpg'' = None \<and>
   processRow 2 exampleCallback [''2'', ''   ''] (initial Map.empty) =
     Inr \<lparr>result = \<lparr>SuccessCount = 0, ErrorCount = 1, TotalRows = 1\<rparr>,
          rowNum = 2, calls = [], world = Map.empty\<rparr> \<and>
   rowNum \<lparr>result = \<lparr>SuccessCount = 0, ErrorCount = 1, TotalRows = 1\<rparr>,
          rowNum = 2, calls = [], world = Map.empty :: filesystem\<rparr> =
     rowNum (initial (Map.empty :: filesystem)) + 1"
proof -
  have long: "\<not> int (length [''id'', ''url'']) < 2"
    by simp
  note t = ProcessCSV_row_numbers [where os_Open = exampleOpen and csvFile = "''data.csv''"
      and header = "[''id'', ''url'']" and rest = exampleRows and urlColumnIndex = 2
      and downloadFunc = exampleCallback and w = Map.empty and row = "[''2'', ''   '']"
      and st = "initial Map.empty"]
  note run = t [THEN conjunct1, rule_format, OF conjI [OF exampleOpen_data long]]
  from run [THEN conjunct1]
  have inv: "invocations (ProcessCSV exampleOpen ''data.csv'' 2 exampleCallback Map.empty) =
     [(''https://example.com/a.jpg'', 1), (''https://example.com/missing'', 3),
      (''invalid-url'', 4), (''https://example.com/c'', 5)]"
    by (simp only: example_calls)
  from run [THEN conjunct2, THEN conjunct2]
  have seen: "fst (after (ProcessCSV exampleOpen ''data.csv'' 2 (recording exampleCallback)
        ([], Map.empty))) =
     [(''https://example.com/a.jpg'', 1), (''https://example.com/missing'', 3),
      (''invalid-url'', 4), (''https://example.com/c'', 5)]"
    by (simp only: example_calls)
  have w5: "spec_world exampleCallback Map.empty
      [(''https://example.com/a.jpg'', 1), (''https://example.com/missing'', 3),
       (''invalid-url'', 4), (''https://example.com/c'', 5)] ''downloads/image_5.jpg'' =
      Some ''data''"
    and w2: "spec_world exampleCallback Map.empty
      [(''https://example.com/a.jpg'', 1), (''https://example.com/missing'', 3),
       (''invalid-url'', 4), (''https://example.com/c'', 5)] ''downloads/image_2.jpg'' = None"
    by code_simp+
  from run [THEN conjunct2, THEN conjunct1]
  have files: "after (ProcessCSV exampleOpen ''data.csv'' 2 exampleCallback Map.empty) =
      spec_world exampleCallback Map.empty
        [(''https://example.com/a.jpg'', 1), (''https://example.com/missing'', 3),
         (''invalid-url'', 4), (''https://example.com/c'', 5)]"
    by (simp only: example_calls)
  have f5: "after (ProcessCSV exampleOpen ''data.csv'' 2 exampleCallback Map.empty)
       ''downloads/image_5.jpg'' = Some ''data''"
    unfolding files by (rule w5)
  have f2: "after (ProcessCSV exampleOpen ''data.csv'' 2 exampleCallback Map.empty)
       ''downloads/image_2.jpg'' = None"
    unfolding files by (rule w2)
  from t [THEN conjunct2, THEN conjunct2, rule_format, OF processRow_blank_example]
  have num: "rowNum \<lparr>result = \<lparr>SuccessCount = 0, ErrorCount = 1, TotalRows = 1\<rparr>,
          rowNum = 2, calls = [], world = Map.empty :: filesystem\<rparr> =
     rowNum (initial (Map.empty :: filesystem)) + 1" .
  have "fst (after (ProcessCSV exampleOpen ''data.csv'' 2 (recording exampleCallback)
        ([], Map.empty))) =
     [(''https://example.com/a.jpg'', 1), (''https://example.com/missing'', 3),
      (''invalid-url'', 4), (''https://example.com/c'', 5)]"
    and "after (ProcessCSV exampleOpen ''data.csv'' 2 exampleCallback Map.empty)
       ''downloads/image_5.jpg'' = Some ''data''"
    by code_simp+
  from exampleOpen_data long inv seen f5 f2 processRow_blank_example num show ?thesis
    by (intro conjI)
qed

subsection \<open>The column read\<close>

text \<open>
  Claim C10. \<open>ProcessCSV\<close> has no check that \<open>urlColumnIndex\<close> is at least 1. When it is,
  the read of column \<open>urlColumnIndex - 1\<close> is in range on every row that passes the length
  guard, and \<open>ProcessCSV\<close> never panics. When it is 0 or less, the guards on the header
  and on the row are passed by every length, and the first data record makes the read
  panic with an index out of range.
\<close>

theorem ProcessCSV_index_safety:
  "(1 \<le> urlColumnIndex \<longrightarrow>
      (\<not> int (length row) < urlColumnIndex \<longrightarrow>
         index row (urlColumnIndex - 1) = Inr (row ! nat (urlColumnIndex - 1))) \<and>
      (\<exists>ret. outcome (ProcessCSV os_Open csvFile urlColumnIndex downloadFunc w) = Inr ret)) \<and>
   (urlColumnIndex \<le> 0 \<longrightarrow>
      \<not> int (length header) < urlColumnIndex \<and>
      \<not> int (length row) < urlColumnIndex \<and>
      (os_Open csvFile = Inr (Record header # Record row # rest) \<longrightarrow>
         outcome (ProcessCSV os_Open csvFile urlColumnIndex downloadFunc w) =
           Inl (IndexOutOfRange (urlColumnIndex - 1) (length row))))"
proof (intro conjI impI)
  assume "1 \<le> urlColumnIndex" and "\<not> int (length row) < urlColumnIndex"
  then show "index row (urlColumnIndex - 1) = Inr (row ! nat (urlColumnIndex - 1))"
    by (rule index_in_range)
next
  assume pos: "1 \<le> urlColumnIndex"
  show "\<exists>ret. outcome (ProcessCSV os_Open csvFile urlColumnIndex downloadFunc w) = Inr ret"
  proof (cases "spec_structuralFailure os_Open csvFile urlColumnIndex")
    case True
    from ProcessCSV_failure [OF this, of downloadFunc w] show ?thesis by auto
  next
    case False
    from ProcessCSV_no_failure [OF this] obtain h rs
      where h: "os_Open csvFile = Inr (Record h # rs)" "\<not> int (length h) < urlColumnIndex"
      by blast
    note run = ProcessCSV_loop [where os_Open = os_Open and csvFile = csvFile
        and downloadFunc = downloadFunc and w = w, OF h]
    from readLoop_no_panic [OF pos, of downloadFunc rs "initial w"] show ?thesis
      unfolding run by auto
  qed
next
  assume "urlColumnIndex \<le> 0"
  then show "\<not> int (length header) < urlColumnIndex" by simp
next
  assume "urlColumnIndex \<le> 0"
  then show "\<not> int (length row) < urlColumnIndex" by simp
next
  assume nonpos: "urlColumnIndex \<le> 0"
    and opened: "os_Open csvFile = Inr (Record header # Record row # rest)"
  from nonpos have long: "\<not> int (length header) < urlColumnIndex" by simp
  note run = ProcessCSV_loop [where os_Open = os_Open and csvFile = csvFile
      and downloadFunc = downloadFunc and w = w, OF opened long]
  from readLoop_panic [OF nonpos, of downloadFunc row rest "initial w"]
  show "outcome (ProcessCSV os_Open csvFile urlColumnIndex downloadFunc w) =
           Inl (IndexOutOfRange (urlColumnIndex - 1) (length row))"
    unfolding run by simp
qed

theorem ProcessCSV_index_safety_witness:
  "(1::int) \<le> 2 \<and> \<not> int (length [''5'', ''https://example.com/c'']) < 2 \<and>
   index [''5'', ''https://example.com/c''] (2 - 1) = Inr ''https://example.com/c'' \<and>
   outcome (ProcessCSV exampleOpen ''data.csv'' 2 exampleCallback Map.empty) =
     Inr (Some \<lparr>SuccessCount = 2, ErrorCount = 3, TotalRows = 5\<rparr>, None) \<and>
   (0::int) \<le> 0 \<and>
   exampleOpen ''narrow.csv'' = Inr (Record [''id''] # Record [''1''] # []) \<and>
   outcome (ProcessCSV exampleOpen ''narrow.csv'' 0 exampleCallback Map.empty) =
     Inl (IndexOutOfRange (- 1) 1)"
proof -
  have pos: "(1::int) \<le> 2" and nonpos: "(0::int) \<le> 0"
    by simp_all
  have long: "\<not> int (length [''5'', ''https://example.com/c'']) < 2"
    by simp
  have o: "exampleOpen ''narrow.csv'' = Inr (Record [''id''] # Record [''1''] # [])"
    by (simp add: exampleOpen_def)
  note safe = ProcessCSV_index_safety [where urlColumnIndex = 2
      and row = "[''5'', ''https://example.com/c'']" and os_Open = exampleOpen
      and csvFile = "''data.csv''" and downloadFunc = exampleCallback and w = Map.empty,
      THEN conjunct1, rule_format, OF pos, THEN conjunct1, rule_format, OF long]
  note unsafe = ProcessCSV_index_safety [where urlColumnIndex = 0 and header = "[''id'']"
      and row = "[''1'']" and rest = "[]" and os_Open = exampleOpen
      and csvFile = "''narrow.csv''" and downloadFunc = exampleCallback and w = Map.empty,
      THEN conjunct2, rule_format, OF nonpos, THEN conjunct2, THEN conjunct2, rule_format, OF o]
  from safe have i: "index [''5'', ''https://example.com/c''] (2 - 1) = Inr ''https://example.com/c''"
    by simp
  from unsafe have p: "outcome (ProcessCSV exampleOpen ''narrow.csv'' 0 exampleCallback Map.empty) =
     Inl (IndexOutOfRange (- 1) 1)"
    by simp
  from pos long i example_run nonpos o p show ?thesis
    by (intro conjI)
qed

end
